theory Spec2Isabelle
  imports Complex_Main "HOL-Library.Word" "HOL-Library.AList"
begin

unbundle bit_operations_syntax

section \<open>Platform values\<close>

text \<open>
  The library is TypeScript. Its byte arrays are \<open>Uint8Array\<close>s, modelled as lists of
  8-bit words. Its own numbers only ever hold integers (\<open>type Integer = number\<close>); they
  are modelled as \<open>int\<close>, which is exact below \<open>2 ^ 53\<close>. The bitwise operators of the
  language first convert an operand to a signed 32-bit integer; this conversion is
  written out (\<open>ToInt32\<close>) wherever the source uses \<open>|\<close>, \<open>&\<close>, \<open>~\<close> or \<open>>>\<close>.

  A value produced by \<open>JSON.parse\<close> is a \<open>json\<close>; the entries of a \<open>JObj\<close> are its
  own properties in the order \<open>Object.entries\<close> lists them. Strings are \<open>string\<close>s,
  one \<open>char\<close> per UTF-16 code unit, which covers the code units below 256.
\<close>

type_synonym byte = "8 word"
type_synonym Bytes = "byte list"

datatype json =
    JNull
  | JBool bool
  | JNum int
  | JStr string
  | JArr "json list"
  | JObj "(string \<times> json) list"

text \<open>
  \<open>Error\<close> stands for every plain exception (\<open>Error\<close>, \<open>TypeError\<close>, \<open>RangeError\<close>,
  \<open>SyntaxError\<close>); \<open>IgnorableError\<close> is the subclass of that name. The string is the
  fixed part of the message.
\<close>

datatype error = Error string | IgnorableError string

definition ToInt32 :: "int \<Rightarrow> int" where
  "ToInt32 x = signed_take_bit 31 x"

definition js_and :: "int \<Rightarrow> int \<Rightarrow> int" where
  "js_and a b = ToInt32 a AND ToInt32 b"

definition js_shr :: "int \<Rightarrow> nat \<Rightarrow> int" where
  "js_shr a n = drop_bit n (ToInt32 a)"

text \<open>\<open>(x + 7) & ~7\<close>\<close>

definition align8 :: "int \<Rightarrow> int" where
  "align8 x = js_and (x + 7) (NOT 7)"

text \<open>\<open>Uint8Array.prototype.slice(begin, end)\<close> and \<open>Array.prototype.slice\<close>.\<close>

definition js_slice :: "'a list \<Rightarrow> int \<Rightarrow> int \<Rightarrow> 'a list" where
  "js_slice xs b e =
     (let len = int (length xs);
          k = (if b < 0 then max (len + b) 0 else min b len);
          final = (if e < 0 then max (len + e) 0 else min e len)
      in take (nat (final - k)) (drop (nat k) xs))"

fun typeof :: "json \<Rightarrow> string" where
  "typeof (JNum n) = ''number''"
| "typeof (JStr s) = ''string''"
| "typeof (JBool b) = ''boolean''"
| "typeof j = ''object''"

fun show_nat :: "nat \<Rightarrow> string" where
  "show_nat n =
     (if n < 10 then [char_of (48 + n)]
      else show_nat (n div 10) @ [char_of (48 + n mod 10)])"

declare show_nat.simps [simp del]

text \<open>The decimal text of an integer (\<open>Number.prototype.toString\<close> below \<open>10 ^ 21\<close>).\<close>

definition show_int :: "int \<Rightarrow> string" where
  "show_int n = (if n < 0 then CHR ''-'' # show_nat (nat (- n)) else show_nat (nat n))"

text \<open>
  \<open>Object.entries\<close>: \<open>null\<close> throws a \<open>TypeError\<close>, a number or boolean has no own
  property, a string or an array lists its indices.
\<close>

fun object_entries :: "json \<Rightarrow> error + (string \<times> json) list" where
  "object_entries JNull = Inl (Error ''Cannot convert undefined or null to object'')"
| "object_entries (JBool b) = Inr []"
| "object_entries (JNum n) = Inr []"
| "object_entries (JStr s) = Inr (zip (map show_nat [0..<length s]) (map (\<lambda>c. JStr [c]) s))"
| "object_entries (JArr xs) = Inr (zip (map show_nat [0..<length xs]) xs)"
| "object_entries (JObj kvs) = Inr kvs"

section \<open>Conversions of the language\<close>

text \<open>
  The header is JSON of any shape, and the library hands its values to the operators
  \<open><\<close>, \<open><=\<close>, \<open>>\<close>, \<open>>=\<close>, \<open>+\<close> and \<open>*\<close>, to template strings and to \<open>slice\<close> without
  looking at their types. These convert their operands, and the conversions are
  written out here.

  What a conversion yields is a double: \<open>NaN\<close>, a rational number that a double holds,
  or an infinity (\<open>Infinite True\<close> is \<open>+\<infinity>\<close>). Negative zero is not told apart from
  zero: comparison, \<open>!==\<close>, \<open>| 0\<close> and \<open>slice\<close> treat them alike.
\<close>

datatype number = NaN | Finite rat | Infinite bool

text \<open>
  Rounding a rational to the nearest double, ties to the even significand: the
  exponent is that of the leading bit, at least \<open>- 1022\<close> (below it the doubles are
  subnormal), the spacing of the doubles there is \<open>2 ^ (e - 52)\<close>, and a result of
  \<open>2 ^ 1024\<close> is an infinity.
\<close>

fun bit_length :: "nat \<Rightarrow> nat" where
  "bit_length n = (if n = 0 then 0 else Suc (bit_length (n div 2)))"

declare bit_length.simps [simp del]

definition pow :: "rat \<Rightarrow> int \<Rightarrow> rat" where
  "pow b e = (if 0 \<le> e then b ^ nat e else 1 / b ^ nat (- e))"

text \<open>The integer \<open>e\<close> with \<open>2 ^ e \<le> a < 2 ^ (e + 1)\<close>, for a positive \<open>a\<close>.\<close>

definition floor_log2 :: "rat \<Rightarrow> int" where
  "floor_log2 a =
     (let (p, q) = quotient_of a;
          e = int (bit_length (nat p)) - int (bit_length (nat q))
      in if pow 2 e \<le> a then e else e - 1)"

definition round_double :: "rat \<Rightarrow> number" where
  "round_double x =
     (if x = 0 then Finite 0
      else
        let a = \<bar>x\<bar>;
            e = max (floor_log2 a) (- 1022);
            ulp = pow 2 (e - 52);
            q = a / ulp;
            n = \<lfloor>q\<rfloor>;
            m = (if q - of_int n < 1 / 2 then n
                 else if 1 / 2 < q - of_int n then n + 1
                 else if even n then n else n + 1);
            y = of_int m * ulp
        in if pow 2 1024 \<le> y then Infinite (0 < x) else Finite (if 0 < x then y else - y))"

text \<open>The operators \<open>*\<close> and \<open>+\<close> on two numbers, and \<open><\<close>, which is undefined on \<open>NaN\<close>.\<close>

fun js_times :: "number \<Rightarrow> number \<Rightarrow> number" where
  "js_times (Finite a) (Finite b) = round_double (a * b)"
| "js_times (Finite a) (Infinite p) = (if a = 0 then NaN else Infinite (p = (0 < a)))"
| "js_times (Infinite p) (Finite b) = (if b = 0 then NaN else Infinite (p = (0 < b)))"
| "js_times (Infinite p) (Infinite q) = Infinite (p = q)"
| "js_times x y = NaN"

fun js_plus :: "number \<Rightarrow> number \<Rightarrow> number" where
  "js_plus (Finite a) (Finite b) = round_double (a + b)"
| "js_plus (Finite a) (Infinite p) = Infinite p"
| "js_plus (Infinite p) (Finite b) = Infinite p"
| "js_plus (Infinite p) (Infinite q) = (if p = q then Infinite p else NaN)"
| "js_plus x y = NaN"

fun number_less :: "number \<Rightarrow> number \<Rightarrow> bool option" where
  "number_less (Finite a) (Finite b) = Some (a < b)"
| "number_less (Finite a) (Infinite p) = Some p"
| "number_less (Infinite p) (Finite b) = Some (\<not> p)"
| "number_less (Infinite p) (Infinite q) = Some (\<not> p \<and> q)"
| "number_less x y = None"

definition negate :: "number \<Rightarrow> number" where
  "negate x = (case x of NaN \<Rightarrow> NaN | Finite r \<Rightarrow> Finite (- r) | Infinite p \<Rightarrow> Infinite (\<not> p))"

text \<open>\<open>x | 0\<close> on a number: \<open>NaN\<close> and the infinities give 0, a fraction is cut off.\<close>

definition number_ToInt32 :: "number \<Rightarrow> int" where
  "number_ToInt32 x =
     (case x of Finite r \<Rightarrow> ToInt32 (if 0 \<le> r then \<lfloor>r\<rfloor> else \<lceil>r\<rceil>) | _ \<Rightarrow> 0)"

text \<open>
  An argument of \<open>slice\<close> on an array of length \<open>len\<close>: \<open>NaN\<close> is 0 and a fraction is
  cut off; \<open>+\<infinity>\<close> and \<open>-\<infinity>\<close> select what \<open>len\<close> and \<open>- len\<close> select.
\<close>

definition slice_arg :: "nat \<Rightarrow> number \<Rightarrow> int" where
  "slice_arg len x =
     (case x of
        NaN \<Rightarrow> 0
      | Finite r \<Rightarrow> (if 0 \<le> r then \<lfloor>r\<rfloor> else \<lceil>r\<rceil>)
      | Infinite p \<Rightarrow> (if p then int len else - int len))"

text \<open>
  Reading a number out of a string (\<open>StringToNumber\<close>): white space around it is
  dropped, the empty text is 0; then \<open>Infinity\<close>, a decimal literal with an optional
  sign, fraction and exponent, or an unsigned literal in base 16, 8 or 2; anything
  else is \<open>NaN\<close>. The value is rounded to the nearest double.
\<close>

definition is_digit :: "char \<Rightarrow> bool" where
  "is_digit c = (48 \<le> (of_char c :: nat) \<and> (of_char c :: nat) \<le> 57)"

definition digit_value :: "char \<Rightarrow> nat" where
  "digit_value c =
     (let n = (of_char c :: nat) in
      if 48 \<le> n \<and> n \<le> 57 then n - 48
      else if 97 \<le> n \<and> n \<le> 122 then n - 87
      else if 65 \<le> n \<and> n \<le> 90 then n - 55
      else 36)"

definition digits_value :: "nat \<Rightarrow> string \<Rightarrow> int" where
  "digits_value radix ds = foldl (\<lambda>a c. int radix * a + int (digit_value c)) 0 ds"

definition radix_digits :: "nat \<Rightarrow> string \<Rightarrow> bool" where
  "radix_digits radix ds = (ds \<noteq> [] \<and> list_all (\<lambda>c. digit_value c < radix) ds)"

definition is_str_ws :: "char \<Rightarrow> bool" where
  "is_str_ws c = ((of_char c :: nat) \<in> {9, 10, 11, 12, 13, 32, 160})"

definition trim :: "string \<Rightarrow> string" where
  "trim s = rev (dropWhile is_str_ws (rev (dropWhile is_str_ws s)))"

definition exponent_part :: "string \<Rightarrow> int option" where
  "exponent_part r =
     (case r of
        [] \<Rightarrow> Some 0
      | c # ds \<Rightarrow>
          if c = CHR ''e'' \<or> c = CHR ''E'' then
            (case ds of
               [] \<Rightarrow> None
             | d # ds' \<Rightarrow>
                 if d = CHR ''+'' \<and> radix_digits 10 ds' then Some (digits_value 10 ds')
                 else if d = CHR ''-'' \<and> radix_digits 10 ds' then Some (- digits_value 10 ds')
                 else if radix_digits 10 ds then Some (digits_value 10 ds)
                 else None)
          else None)"

definition unsigned_decimal :: "string \<Rightarrow> number" where
  "unsigned_decimal u =
     (if u = ''Infinity'' then Infinite True
      else
        let ip = takeWhile is_digit u;
            r1 = dropWhile is_digit u;
            fp = (case r1 of [] \<Rightarrow> [] | c # r \<Rightarrow> if c = CHR ''.'' then takeWhile is_digit r else []);
            r2 = (case r1 of [] \<Rightarrow> [] | c # r \<Rightarrow> if c = CHR ''.'' then dropWhile is_digit r else r1)
        in if ip = [] \<and> fp = [] then NaN
           else
             (case exponent_part r2 of
                None \<Rightarrow> NaN
              | Some ex \<Rightarrow>
                  round_double (of_int (digits_value 10 (ip @ fp)) * pow 10 (ex - int (length fp)))))"

definition StringToNumber :: "string \<Rightarrow> number" where
  "StringToNumber s =
     (case trim s of
        [] \<Rightarrow> Finite 0
      | c # u \<Rightarrow>
          if c = CHR ''+'' then unsigned_decimal u
          else if c = CHR ''-'' then negate (unsigned_decimal u)
          else if c = CHR ''0'' \<and> u \<noteq> [] \<and> (hd u = CHR ''x'' \<or> hd u = CHR ''X'') \<and> radix_digits 16 (tl u)
          then round_double (of_int (digits_value 16 (tl u)))
          else if c = CHR ''0'' \<and> u \<noteq> [] \<and> (hd u = CHR ''o'' \<or> hd u = CHR ''O'') \<and> radix_digits 8 (tl u)
          then round_double (of_int (digits_value 8 (tl u)))
          else if c = CHR ''0'' \<and> u \<noteq> [] \<and> (hd u = CHR ''b'' \<or> hd u = CHR ''B'') \<and> radix_digits 2 (tl u)
          then round_double (of_int (digits_value 2 (tl u)))
          else unsigned_decimal (c # u))"

text \<open>
  The text of a value (\<open>ToString\<close>). An array is the texts of its elements joined by
  commas, with nothing for \<open>null\<close>. A plain object is \<open>[object Object]\<close> through the
  inherited \<open>toString\<close>; when the parsed object has a key \<open>toString\<close> of its own, that
  value is no function, no method is left to call and the conversion throws a
  \<open>TypeError\<close>.
\<close>

fun ToString :: "json \<Rightarrow> error + string"
  and join_elements :: "json list \<Rightarrow> error + string"
where
  "ToString JNull = Inr ''null''"
| "ToString (JBool b) = Inr (if b then ''true'' else ''false'')"
| "ToString (JNum n) = Inr (show_int n)"
| "ToString (JStr s) = Inr s"
| "ToString (JArr xs) = join_elements xs"
| "ToString (JObj kvs) =
     (if ''toString'' \<in> fst ` set kvs then Inl (Error ''Cannot convert object to primitive value'')
      else Inr ''[object Object]'')"
| "join_elements [] = Inr []"
| "join_elements (x # xs) =
     (case (if x = JNull then Inr [] else ToString x) of
        Inl e \<Rightarrow> Inl e
      | Inr s \<Rightarrow>
          if xs = [] then Inr s
          else (case join_elements xs of
                  Inl e \<Rightarrow> Inl e
                | Inr r \<Rightarrow> Inr (s @ CHR '','' # r)))"

text \<open>
  \<open>ToPrimitive\<close>: an array or an object becomes its text, any other value stays.
  \<open>ToNumber\<close> then reads \<open>null\<close> as 0, \<open>false\<close> and \<open>true\<close> as 0 and 1, and a
  string by \<open>StringToNumber\<close>.
\<close>

definition ToPrimitive :: "json \<Rightarrow> error + json" where
  "ToPrimitive v =
     (case v of
        JArr xs \<Rightarrow> (case ToString v of Inl e \<Rightarrow> Inl e | Inr s \<Rightarrow> Inr (JStr s))
      | JObj kvs \<Rightarrow> (case ToString v of Inl e \<Rightarrow> Inl e | Inr s \<Rightarrow> Inr (JStr s))
      | _ \<Rightarrow> Inr v)"

fun prim_number :: "json \<Rightarrow> number" where
  "prim_number (JNum n) = Finite (of_int n)"
| "prim_number JNull = Finite 0"
| "prim_number (JBool b) = Finite (if b then 1 else 0)"
| "prim_number (JStr s) = StringToNumber s"
| "prim_number j = NaN"

definition ToNumber :: "json \<Rightarrow> error + number" where
  "ToNumber v = (case ToPrimitive v of Inl e \<Rightarrow> Inl e | Inr p \<Rightarrow> Inr (prim_number p))"

text \<open>
  The relational operators (\<open>IsLessThan\<close>): both operands are made primitive; two
  strings are compared code unit by code unit, any other pair as numbers, and a
  comparison with \<open>NaN\<close> is undefined (\<open>None\<close>), which makes each of the four
  operators false.
\<close>

fun string_less :: "string \<Rightarrow> string \<Rightarrow> bool" where
  "string_less [] [] = False"
| "string_less [] (y # ys) = True"
| "string_less (x # xs) [] = False"
| "string_less (x # xs) (y # ys) =
     (if x = y then string_less xs ys else (of_char x :: nat) < of_char y)"

definition IsLessThan :: "json \<Rightarrow> json \<Rightarrow> error + bool option" where
  "IsLessThan x y =
     (case ToPrimitive x of
        Inl e \<Rightarrow> Inl e
      | Inr px \<Rightarrow>
          (case ToPrimitive y of
             Inl e \<Rightarrow> Inl e
           | Inr py \<Rightarrow>
               Inr (case (px, py) of
                      (JStr a, JStr b) \<Rightarrow> Some (string_less a b)
                    | _ \<Rightarrow> number_less (prim_number px) (prim_number py))))"

definition js_lt :: "json \<Rightarrow> json \<Rightarrow> error + bool" where
  "js_lt a b = (case IsLessThan a b of Inl e \<Rightarrow> Inl e | Inr r \<Rightarrow> Inr (r = Some True))"

definition js_gt :: "json \<Rightarrow> json \<Rightarrow> error + bool" where
  "js_gt a b = (case IsLessThan b a of Inl e \<Rightarrow> Inl e | Inr r \<Rightarrow> Inr (r = Some True))"

definition js_le :: "json \<Rightarrow> json \<Rightarrow> error + bool" where
  "js_le a b = (case IsLessThan b a of Inl e \<Rightarrow> Inl e | Inr r \<Rightarrow> Inr (r = Some False))"

definition js_ge :: "json \<Rightarrow> json \<Rightarrow> error + bool" where
  "js_ge a b = (case IsLessThan a b of Inl e \<Rightarrow> Inl e | Inr r \<Rightarrow> Inr (r = Some False))"

text \<open>\<open>a && b\<close> on two conditions that may throw: \<open>b\<close> is not evaluated when \<open>a\<close> is false.\<close>

definition and_also :: "error + bool \<Rightarrow> error + bool \<Rightarrow> error + bool" where
  "and_also a b = (case a of Inl e \<Rightarrow> Inl e | Inr x \<Rightarrow> if x then b else Inr False)"

section \<open>Element size and the explicit size check\<close>

text \<open>\<open>format.match(/\d+/)\<close>: the leftmost longest run of digits, \<open>[]\<close> when there is none.\<close>

definition match_digits :: "string \<Rightarrow> string" where
  "match_digits s = takeWhile is_digit (dropWhile (\<lambda>c. \<not> is_digit c) s)"

text \<open>\<open>parseInt(ds, 10)\<close> on a run of digits: its value, rounded to the nearest double.\<close>

definition parseInt10 :: "string \<Rightarrow> number" where
  "parseInt10 ds = round_double (of_int (digits_value 10 ds))"

definition formatLength :: "string \<Rightarrow> error + rat" where
  "formatLength format =
     (let num = match_digits format in
      if num = [] then Inl (Error ''not a valid format (must contain bit size)'')
      else
        let parsed = number_ToInt32 (parseInt10 num) in
        if js_and (ToInt32 parsed) (ToInt32 parsed - 1) \<noteq> 0
        then Inl (Error ''not a valid format (must be power of 2)'')
        else Inr (of_int parsed / 8))"

text \<open>
  \<open>_sanityCheck\<close>. The loop \<open>num *= shape[i]\<close> runs over the shape (\<open>[1]\<close> for the empty
  shape) before the element size is computed; an element that reads as \<open>NaN\<close> makes
  the product \<open>NaN\<close>, which differs from every length.
\<close>

fun shape_product :: "number \<Rightarrow> json list \<Rightarrow> error + number" where
  "shape_product num [] = Inr num"
| "shape_product num (d # ds) =
     (case ToNumber d of
        Inl e \<Rightarrow> Inl e
      | Inr x \<Rightarrow> shape_product (js_times num x) ds)"

definition private_sanityCheck :: "string \<Rightarrow> Bytes \<Rightarrow> string \<Rightarrow> json list \<Rightarrow> error + unit" where
  "private_sanityCheck name bytes format shape =
     (if format = [] then Inl (Error ''missing format and shape information'')
      else
        let shape' = (if length shape = 0 then [JNum 1] else shape) in
        case shape_product (Finite 1) shape' of
          Inl e \<Rightarrow> Inl e
        | Inr num \<Rightarrow>
            (case formatLength format of
               Inl e \<Rightarrow> Inl e
             | Inr fl \<Rightarrow>
                 if Finite (of_nat (length bytes)) \<noteq> js_times num (Finite fl)
                 then Inl (IgnorableError ''is the wrong size'')
                 else Inr ()))"

section \<open>Stage A: the raw header\<close>

text \<open>\<open>bytes[i]! | 0\<close>: an index past the end reads \<open>undefined\<close>, which \<open>| 0\<close> turns into 0.\<close>

definition byte_at :: "Bytes \<Rightarrow> nat \<Rightarrow> int" where
  "byte_at bytes i = (if i < length bytes then ToInt32 (uint (bytes ! i)) else 0)"

definition unsafeGetHeaderSize :: "Bytes \<Rightarrow> int" where
  "unsafeGetHeaderSize bytes =
     ToInt32 (byte_at bytes 0 + byte_at bytes 1 * 256 + byte_at bytes 2 * 256 * 256
              + byte_at bytes 3 * 256 * 256 * 256)"

definition arrayCompare :: "int list \<Rightarrow> int list \<Rightarrow> bool" where
  "arrayCompare a b = (if length a \<noteq> length b then False else list_all2 (=) a b)"

definition sanityCheckTensorsHeader :: "bool \<Rightarrow> Bytes \<Rightarrow> int \<Rightarrow> error + int" where
  "sanityCheckTensorsHeader ignoreInvalid bytes filesize =
     (if \<not> arrayCompare (map uint (js_slice bytes 4 9)) [0, 0, 0, 0, 123]
      then Inl (Error ''The file header is not a valid safetensors file.'')
      else
        let val = unsafeGetHeaderSize bytes in
        if val > 100 * 1024 * 1024 \<and> \<not> ignoreInvalid
        then Inl (IgnorableError ''The file header is too long to be a valid safetensors file.'')
        else if filesize < 8 + val
        then Inl (Error ''The safetensors file seems truncated or otherwise not valid.'')
        else Inr val)"

section \<open>Stage B: the parsed header\<close>

definition checkMetadata :: "bool \<Rightarrow> json \<Rightarrow> error + unit" where
  "checkMetadata ignoreInvalid v =
     (case object_entries v of
        Inl e \<Rightarrow> Inl e
      | Inr kvs \<Rightarrow>
          if (\<exists>(key, strval) \<in> set kvs. typeof strval \<noteq> ''string'' \<and> \<not> ignoreInvalid)
          then Inl (IgnorableError ''The metadata value is not a string'')
          else Inr ())"

definition pairInRange :: "json \<times> json \<Rightarrow> int \<Rightarrow> error + bool" where
  "pairInRange pair chunksize =
     and_also (js_ge (fst pair) (JNum 0))
       (and_also (js_le (fst pair) (JNum chunksize))
          (and_also (js_ge (snd pair) (JNum 0))
             (and_also (js_le (snd pair) (JNum chunksize))
                (js_le (fst pair) (snd pair)))))"

text \<open>
  The state of one \<open>TensorAttributeChecker\<close>: its three flags, and the array
  \<open>covered\<close> that all checkers of one header share and push to.
\<close>

record tac =
  has_dtype :: bool
  has_shape :: bool
  has_data_offsets :: bool
  covered :: "(json \<times> json) list"

definition new_tac :: "(json \<times> json) list \<Rightarrow> tac" where
  "new_tac cov = \<lparr>has_dtype = False, has_shape = False, has_data_offsets = False, covered = cov\<rparr>"

definition attrOk :: "string \<Rightarrow> bool" where
  "attrOk key = (key = ''dtype'' \<or> key = ''shape'' \<or> key = ''data_offsets'')"

definition assertAttributePresence :: "tac \<Rightarrow> error + unit" where
  "assertAttributePresence t =
     (if \<not> has_dtype t then Inl (Error ''missing the dtype key'')
      else if \<not> has_shape t then Inl (Error ''missing the shape key'')
      else if \<not> has_data_offsets t then Inl (Error ''missing the data_offsets key'')
      else Inr ())"

definition checkTensorShape :: "bool \<Rightarrow> json \<Rightarrow> error + unit" where
  "checkTensorShape ignoreInvalid v =
     (case v of
        JArr vs \<Rightarrow>
          if (\<exists>x \<in> set vs. typeof x \<noteq> ''number'' \<and> \<not> ignoreInvalid)
          then Inl (IgnorableError ''The shape is not an array of numbers'')
          else Inr ()
      | _ \<Rightarrow> Inl (Error ''The shape is not an array''))"

text \<open>
  The message of the error names both offsets in a template string, which converts
  them to text before the error exists.
\<close>

definition checkDataOffsetBasics :: "bool \<Rightarrow> int \<Rightarrow> json \<times> json \<Rightarrow> error + unit" where
  "checkDataOffsetBasics ignoreInvalid chunksize v =
     (case pairInRange v chunksize of
        Inl e \<Rightarrow> Inl e
      | Inr inRange \<Rightarrow>
          if \<not> inRange \<and> \<not> ignoreInvalid then
            (case ToString (fst v) of
               Inl e \<Rightarrow> Inl e
             | Inr a \<Rightarrow>
                 (case ToString (snd v) of
                    Inl e \<Rightarrow> Inl e
                  | Inr b \<Rightarrow> Inl (IgnorableError ''The data_offsets is out of range'')))
          else Inr ())"

definition checkTensorOverlap :: "bool \<Rightarrow> json \<Rightarrow> json \<Rightarrow> json \<times> json \<Rightarrow> error + unit" where
  "checkTensorOverlap ignoreInvalid start end v =
     (case and_also (js_gt (snd v) start) (js_le (snd v) end) of
        Inl e \<Rightarrow> Inl e
      | Inr endInside \<Rightarrow>
          (case and_also (js_ge (fst v) start) (js_lt (fst v) end) of
             Inl e \<Rightarrow> Inl e
           | Inr startInside \<Rightarrow>
               let err1 = (if endInside
                           then Some (IgnorableError ''The data_offsets end overlaps with another tensor'')
                           else None);
                   err2 = (if startInside
                           then Some (IgnorableError ''The data_offsets start overlaps with another tensor'')
                           else err1)
               in case err2 of
                    Some e \<Rightarrow> if \<not> ignoreInvalid then Inl e else Inr ()
                  | None \<Rightarrow> Inr ()))"

fun overlap_loop :: "bool \<Rightarrow> (json \<times> json) list \<Rightarrow> json \<times> json \<Rightarrow> error + unit" where
  "overlap_loop ignoreInvalid [] v = Inr ()"
| "overlap_loop ignoreInvalid ((start, end) # cov) v =
     (case checkTensorOverlap ignoreInvalid start end v of
        Inl e \<Rightarrow> Inl e
      | Inr u \<Rightarrow> overlap_loop ignoreInvalid cov v)"

definition checkDataOffsets ::
  "bool \<Rightarrow> int \<Rightarrow> (json \<times> json) list \<Rightarrow> json \<Rightarrow> error + (json \<times> json) list" where
  "checkDataOffsets ignoreInvalid chunksize cov obj =
     (case obj of
        JArr [a, b] \<Rightarrow>
          (case checkDataOffsetBasics ignoreInvalid chunksize (a, b) of
             Inl e \<Rightarrow> Inl e
           | Inr u \<Rightarrow>
               (case overlap_loop ignoreInvalid cov (a, b) of
                  Inl e \<Rightarrow> Inl e
                | Inr u \<Rightarrow> Inr (cov @ [(a, b)])))
      | _ \<Rightarrow> Inl (Error ''The data_offsets is not an array with length 2''))"

text \<open>The call \<open>this[key](name, val)\<close> for one of the three recognised keys.\<close>

definition check_attr :: "bool \<Rightarrow> int \<Rightarrow> string \<Rightarrow> json \<Rightarrow> tac \<Rightarrow> error + tac" where
  "check_attr ignoreInvalid chunksize key v t =
     (if key = ''dtype'' then
        (if typeof v \<noteq> ''string'' then Inl (Error ''The dtype is not a string'')
         else Inr (t\<lparr>has_dtype := True\<rparr>))
      else if key = ''shape'' then
        (case checkTensorShape ignoreInvalid v of
           Inl e \<Rightarrow> Inl e
         | Inr u \<Rightarrow> Inr (t\<lparr>has_shape := True\<rparr>))
      else
        (case checkDataOffsets ignoreInvalid chunksize (covered t) v of
           Inl e \<Rightarrow> Inl e
         | Inr cov \<Rightarrow> Inr (t\<lparr>covered := cov, has_data_offsets := True\<rparr>)))"

fun attr_loop :: "bool \<Rightarrow> int \<Rightarrow> (string \<times> json) list \<Rightarrow> tac \<Rightarrow> error + tac" where
  "attr_loop ignoreInvalid chunksize [] t = Inr t"
| "attr_loop ignoreInvalid chunksize ((key, v) # rest) t =
     (if \<not> attrOk key then
        (if \<not> ignoreInvalid
         then Inl (IgnorableError ''The tensor description has an invalid key'')
         else attr_loop ignoreInvalid chunksize rest t)
      else
        (case check_attr ignoreInvalid chunksize key v t of
           Inl e \<Rightarrow> Inl e
         | Inr t' \<Rightarrow> attr_loop ignoreInvalid chunksize rest t'))"

definition checkTensorValue ::
  "bool \<Rightarrow> int \<Rightarrow> (json \<times> json) list \<Rightarrow> json \<Rightarrow> error + (json \<times> json) list" where
  "checkTensorValue ignoreInvalid chunksize cov v =
     (case object_entries v of
        Inl e \<Rightarrow> Inl e
      | Inr kvs \<Rightarrow>
          (case attr_loop ignoreInvalid chunksize kvs (new_tac cov) of
             Inl e \<Rightarrow> Inl e
           | Inr t \<Rightarrow>
               (case assertAttributePresence t of
                  Inl e \<Rightarrow> Inl e
                | Inr u \<Rightarrow> Inr (covered t))))"

fun parsed_loop ::
  "bool \<Rightarrow> int \<Rightarrow> (string \<times> json) list \<Rightarrow> (json \<times> json) list \<Rightarrow> error + unit" where
  "parsed_loop ignoreInvalid chunksize [] cov = Inr ()"
| "parsed_loop ignoreInvalid chunksize ((name, v) # rest) cov =
     (if name = ''__metadata__'' then
        (case checkMetadata ignoreInvalid v of
           Inl e \<Rightarrow> Inl e
         | Inr u \<Rightarrow> parsed_loop ignoreInvalid chunksize rest cov)
      else
        (case checkTensorValue ignoreInvalid chunksize cov v of
           Inl e \<Rightarrow> Inl e
         | Inr cov' \<Rightarrow> parsed_loop ignoreInvalid chunksize rest cov'))"

definition sanityCheckTensorsParsed :: "bool \<Rightarrow> json \<Rightarrow> int \<Rightarrow> error + unit" where
  "sanityCheckTensorsParsed ignoreInvalid j chunksize =
     (case object_entries j of
        Inl e \<Rightarrow> Inl e
      | Inr kvs \<Rightarrow> parsed_loop ignoreInvalid chunksize kvs [])"

section \<open>Tensors and containers\<close>

text \<open>
  A \<open>TensorRef\<close> and a \<open>TensorMap\<close> are objects with identity: a tensor is shared
  between the caller and the maps that list it, and \<open>_parent\<close> points back to a
  map. Both live in a store, under addresses. A \<open>Map\<close> of the platform keeps
  insertion order: \<open>set\<close> on an existing key replaces in place and appends a
  new key (\<open>AList.update\<close>), \<open>delete\<close> is \<open>AList.delete\<close>, \<open>get\<close> is \<open>map_of\<close>.

  An exception does not undo the assignments made before it, so every operation
  returns the store it leaves behind together with its outcome.
\<close>

record TensorRef =
  name :: string
  bytes :: Bytes
  format :: string
  shape :: "json list"
  parent :: "nat option"

record TensorMap =
  refs :: "(string \<times> nat) list"
  metadata :: "(string \<times> json) list"

record store =
  tensor_at :: "nat \<Rightarrow> TensorRef"
  map_at :: "nat \<Rightarrow> TensorMap"
  next_tensor :: nat
  next_map :: nat

definition empty_store :: store where
  "empty_store =
     \<lparr>tensor_at = (\<lambda>a. \<lparr>name = [], bytes = [], format = [], shape = [], parent = None\<rparr>),
      map_at = (\<lambda>a. \<lparr>refs = [], metadata = []\<rparr>),
      next_tensor = 0, next_map = 0\<rparr>"

definition new_TensorMap :: "store \<Rightarrow> nat \<times> store" where
  "new_TensorMap s =
     (next_map s,
      s\<lparr>map_at := (map_at s)(next_map s := \<lparr>refs = [], metadata = []\<rparr>),
        next_map := Suc (next_map s)\<rparr>)"

definition new_TensorRef :: "string \<Rightarrow> Bytes \<Rightarrow> string \<Rightarrow> json list \<Rightarrow> store \<Rightarrow> nat \<times> store" where
  "new_TensorRef nm data fmt shp s =
     (next_tensor s,
      s\<lparr>tensor_at := (tensor_at s)(next_tensor s :=
            \<lparr>name = nm, bytes = data, format = fmt, shape = shp, parent = None\<rparr>),
        next_tensor := Suc (next_tensor s)\<rparr>)"

definition set_refs :: "nat \<Rightarrow> (string \<times> nat) list \<Rightarrow> store \<Rightarrow> store" where
  "set_refs c r s = s\<lparr>map_at := (map_at s)(c := (map_at s c)\<lparr>refs := r\<rparr>)\<rparr>"

definition set_parent :: "nat \<Rightarrow> nat option \<Rightarrow> store \<Rightarrow> store" where
  "set_parent t p s = s\<lparr>tensor_at := (tensor_at s)(t := (tensor_at s t)\<lparr>parent := p\<rparr>)\<rparr>"

definition getTensor :: "nat \<Rightarrow> string \<Rightarrow> store \<Rightarrow> nat option" where
  "getTensor c nm s = map_of (refs (map_at s c)) nm"

definition private_setTensor :: "nat \<Rightarrow> string \<Rightarrow> nat \<Rightarrow> store \<Rightarrow> (error + nat) \<times> store" where
  "private_setTensor c nm t s =
     (if parent (tensor_at s t) \<noteq> None \<and> parent (tensor_at s t) \<noteq> Some c
      then (Inl (Error ''You can only add a tensor to a TensorMap that it does not already belong to.''), s)
      else (Inr t, set_parent t (Some c) (set_refs c (AList.update nm t (refs (map_at s c))) s)))"

text \<open>The two overloads of \<open>addTensor\<close>: by existing tensor, and by raw parts.\<close>

definition addTensor_ref :: "nat \<Rightarrow> string \<Rightarrow> nat \<Rightarrow> store \<Rightarrow> (error + nat) \<times> store" where
  "addTensor_ref c nm t s =
     (if getTensor c nm s \<noteq> None
      then (Inl (Error ''The name already exists in the TensorMap.''), s)
      else private_setTensor c nm t s)"

definition addTensor_raw ::
  "nat \<Rightarrow> string \<Rightarrow> Bytes \<Rightarrow> string \<Rightarrow> json list \<Rightarrow> store \<Rightarrow> (error + nat) \<times> store" where
  "addTensor_raw c nm data fmt shp s =
     (if getTensor c nm s \<noteq> None
      then (Inl (Error ''The name already exists in the TensorMap.''), s)
      else if fmt = []
      then (Inl (Error ''You must provide format and shape when adding tensor.''), s)
      else
        let (t, s') = new_TensorRef nm data fmt shp s
        in private_setTensor c nm t s')"

text \<open>\<open>removeTensor\<close>, by tensor and by name.\<close>

definition removeTensor_ref :: "nat \<Rightarrow> nat \<Rightarrow> store \<Rightarrow> (error + unit) \<times> store" where
  "removeTensor_ref c t s =
     (if parent (tensor_at s t) \<noteq> Some c
      then (Inl (Error ''You can only remove a tensor from the TensorMap that it belongs to.''), s)
      else
        let s1 = set_parent t None s
        in (Inr (), set_refs c (AList.delete (name (tensor_at s1 t)) (refs (map_at s1 c))) s1))"

definition removeTensor :: "nat \<Rightarrow> string \<Rightarrow> store \<Rightarrow> (error + unit) \<times> store" where
  "removeTensor c nm s =
     (case getTensor c nm s of
        None \<Rightarrow> (Inr (), s)
      | Some t \<Rightarrow> removeTensor_ref c t s)"

definition setTensor :: "nat \<Rightarrow> string \<Rightarrow> nat \<Rightarrow> store \<Rightarrow> (error + nat) \<times> store" where
  "setTensor c nm t s =
     (case removeTensor c nm s of
        (Inl e, s1) \<Rightarrow> (Inl e, s1)
      | (Inr u, s1) \<Rightarrow> addTensor_ref c nm t s1)"

text \<open>The factory is a callback that returns a tensor; it may allocate.\<close>

definition getOrMakeTensor ::
  "nat \<Rightarrow> string \<Rightarrow> (store \<Rightarrow> nat \<times> store) \<Rightarrow> store \<Rightarrow> nat \<times> store" where
  "getOrMakeTensor c nm factory s =
     (case getTensor c nm s of
        Some ten \<Rightarrow> (ten, s)
      | None \<Rightarrow>
          let (ten, s1) = factory s
          in (ten, set_refs c (AList.update nm ten (refs (map_at s1 c))) s1))"

definition getMetaValue :: "nat \<Rightarrow> string \<Rightarrow> store \<Rightarrow> json option" where
  "getMetaValue c nm s = map_of (metadata (map_at s c)) nm"

definition setAllMetadata :: "nat \<Rightarrow> (string \<times> json) list \<Rightarrow> store \<Rightarrow> store" where
  "setAllMetadata c md s = s\<lparr>map_at := (map_at s)(c := (map_at s c)\<lparr>metadata := md\<rparr>)\<rparr>"

definition setMetaValue :: "nat \<Rightarrow> string \<Rightarrow> json \<Rightarrow> store \<Rightarrow> store" where
  "setMetaValue c nm v s = setAllMetadata c (AList.update nm v (metadata (map_at s c))) s"

text \<open>The setter of \<open>TensorRef.name\<close>.\<close>

definition set_name :: "nat \<Rightarrow> string \<Rightarrow> store \<Rightarrow> (error + unit) \<times> store" where
  "set_name t v s =
     (case parent (tensor_at s t) of
        Some p \<Rightarrow>
          if getTensor p v s \<noteq> None
          then (Inl (Error ''The name already exists in the parent TensorMap.''), s)
          else
            let s1 = set_refs p (AList.delete (name (tensor_at s t)) (refs (map_at s p))) s;
                s2 = s1\<lparr>tensor_at := (tensor_at s1)(t := (tensor_at s1 t)\<lparr>name := v\<rparr>)\<rparr>
            in (Inr (), set_refs p (AList.update v t (refs (map_at s2 p))) s2)
      | None \<Rightarrow>
          (Inr (), s\<lparr>tensor_at := (tensor_at s)(t := (tensor_at s t)\<lparr>name := v\<rparr>)\<rparr>))"

definition removeIfParented :: "nat \<Rightarrow> store \<Rightarrow> (error + unit) \<times> store" where
  "removeIfParented t s =
     (case parent (tensor_at s t) of
        Some p \<Rightarrow> removeTensor_ref p t s
      | None \<Rightarrow> (Inr (), s))"

definition sanityCheck :: "nat \<Rightarrow> store \<Rightarrow> error + unit" where
  "sanityCheck t s =
     private_sanityCheck (name (tensor_at s t)) (bytes (tensor_at s t))
       (format (tensor_at s t)) (shape (tensor_at s t))"

text \<open>A tensor is owned by the container that its back-reference \<open>_parent\<close> points to.\<close>

definition owned :: "store \<Rightarrow> nat \<Rightarrow> nat \<Rightarrow> bool" where
  "owned s c t = (parent (tensor_at s t) = Some c)"

section \<open>Objects of the platform\<close>

text \<open>
  The header is built as a plain object. Its own properties are listed by
  \<open>Object.entries\<close> and \<open>JSON.stringify\<close> with the array indices first, in
  ascending order, then the other keys in the order of their creation; assigning to
  an existing key keeps its place. An array index is the canonical decimal form of
  an integer up to \<open>2 ^ 32 - 2\<close>.
\<close>

definition is_array_index :: "string \<Rightarrow> bool" where
  "is_array_index k =
     (k \<noteq> [] \<and> list_all is_digit k \<and> (k = ''0'' \<or> hd k \<noteq> CHR ''0'')
      \<and> digits_value 10 k \<le> 4294967294)"

fun put_index :: "int \<Rightarrow> string \<Rightarrow> 'v \<Rightarrow> (string \<times> 'v) list \<Rightarrow> (string \<times> 'v) list" where
  "put_index i k v [] = [(k, v)]"
| "put_index i k v ((k', v') # r) =
     (if is_array_index k' \<and> digits_value 10 k' < i then (k', v') # put_index i k v r
      else (k, v) # (k', v') # r)"

text \<open>Creating or overwriting an own property (\<open>CreateDataProperty\<close>).\<close>

definition js_define :: "(string \<times> 'v) list \<Rightarrow> string \<Rightarrow> 'v \<Rightarrow> (string \<times> 'v) list" where
  "js_define obj k v =
     (if is_array_index k \<and> k \<notin> fst ` set obj then put_index (digits_value 10 k) k v obj
      else AList.update k v obj)"

text \<open>
  The assignment \<open>obj[k] = v\<close> on an object made by \<open>{}\<close>. The key \<open>__proto__\<close>
  reaches the inherited setter, which replaces the prototype (when \<open>v\<close> is an object
  or \<open>null\<close>) and creates no own property.
\<close>

definition js_assign :: "(string \<times> 'v) list \<Rightarrow> string \<Rightarrow> 'v \<Rightarrow> (string \<times> 'v) list" where
  "js_assign obj k v = (if k = ''__proto__'' then obj else js_define obj k v)"

text \<open>A loop of assignments \<open>obj[k] = v\<close> over a list of entries.\<close>

definition assign_all :: "(string \<times> 'v) list \<Rightarrow> (string \<times> 'v) list \<Rightarrow> (string \<times> 'v) list" where
  "assign_all obj kvs = foldl (\<lambda>m (k, v). js_assign m k v) obj kvs"

text \<open>\<open>new Map(entries)\<close>\<close>

definition Map_of_entries :: "(string \<times> 'v) list \<Rightarrow> (string \<times> 'v) list" where
  "Map_of_entries kvs = foldl (\<lambda>m (k, v). AList.update k v m) [] kvs"

section \<open>The encoder\<close>

text \<open>
  \<open>saveSafeTensors\<close> without a \<open>write\<close> callback: the chunks are copied into one
  buffer \<open>ret\<close> of the size computed beforehand, at the position \<open>wrote\<close>.
  \<open>JSON.stringify\<close> followed by \<open>TextEncoder.encode\<close> is the parameter \<open>stringify\<close>.
\<close>

record TensorSaver =
  tensorMap :: nat
  hdr :: "(string \<times> json) list"
  hdr_proto :: "json option"
  tes :: "(string \<times> nat) list"
  offset :: int
  hdrBuf :: Bytes
  lenbuf :: Bytes
  hblen :: int
  ret :: Bytes
  wrote :: nat

definition padder :: Bytes where
  "padder = [32, 32, 32, 32, 32, 32, 32, 32]"

definition setMetadata :: "store \<Rightarrow> TensorSaver \<Rightarrow> TensorSaver" where
  "setMetadata s sv =
     (let entries = metadata (map_at s (tensorMap sv));
          md = assign_all [] entries;
          toset = (entries \<noteq> [])
      in if toset then sv\<lparr>hdr := js_assign (hdr sv) ''__metadata__'' (JObj md)\<rparr> else sv)"

definition new_TensorSaver :: "store \<Rightarrow> nat \<Rightarrow> TensorSaver" where
  "new_TensorSaver s c =
     setMetadata s
       \<lparr>tensorMap = c, hdr = [], hdr_proto = None, tes = [], offset = 0, hdrBuf = [],
        lenbuf = [], hblen = 0, ret = [], wrote = 0\<rparr>"

definition header_entry :: "TensorRef \<Rightarrow> int \<Rightarrow> json" where
  "header_entry tensor off =
     JObj [(''dtype'', JStr (format tensor)),
           (''shape'', JArr (shape tensor)),
           (''data_offsets'', JArr [JNum off, JNum (off + int (length (bytes tensor)))])]"

fun calcOffset_loop :: "store \<Rightarrow> (string \<times> nat) list \<Rightarrow> TensorSaver \<Rightarrow> TensorSaver" where
  "calcOffset_loop s [] sv = sv"
| "calcOffset_loop s ((nm, t) # rest) sv =
     (let tensor = tensor_at s t;
          entry = header_entry tensor (offset sv);
          sv1 = (if nm = ''__proto__'' then sv\<lparr>hdr_proto := Some entry\<rparr>
                 else sv\<lparr>hdr := js_assign (hdr sv) nm entry\<rparr>)
      in calcOffset_loop s rest
           (sv1\<lparr>offset := offset sv + align8 (int (length (bytes tensor)))\<rparr>))"

definition calcOffset :: "store \<Rightarrow> TensorSaver \<Rightarrow> TensorSaver" where
  "calcOffset s sv =
     (let es = refs (map_at s (tensorMap sv))
      in calcOffset_loop s es (sv\<lparr>tes := es, offset := 0\<rparr>))"

text \<open>
  The eight bytes \<open>[hblen & 0xff, (hblen >> 8) & 0xff, (hblen >> 16) & 0xff,
  (hblen >> 24) & 0xff, 0, 0, 0, 0]\<close>.
\<close>

definition length_field :: "int \<Rightarrow> Bytes" where
  "length_field len =
     [word_of_int (js_and len 255),
      word_of_int (js_and (js_shr len 8) 255),
      word_of_int (js_and (js_shr len 16) 255),
      word_of_int (js_and (js_shr len 24) 255), 0, 0, 0, 0]"

definition calcHeader :: "(json \<Rightarrow> Bytes) \<Rightarrow> TensorSaver \<Rightarrow> error + TensorSaver" where
  "calcHeader stringify sv =
     (let buf = stringify (JObj (hdr sv));
          len = align8 (int (length buf))
      in if len > 100 * 1024 * 1024
         then Inl (Error ''The metadata is too large to be saved in a safetensors file.'')
         else Inr (sv\<lparr>lenbuf := length_field len, hdrBuf := buf, hblen := len\<rparr>))"

text \<open>The default \<open>write\<close>: \<open>ret.set(data, wrote); wrote += data.length\<close>.\<close>

definition default_write :: "Bytes \<Rightarrow> TensorSaver \<Rightarrow> error + TensorSaver" where
  "default_write data sv =
     (if wrote sv + length data > length (ret sv)
      then Inl (Error ''RangeError: offset is out of bounds'')
      else Inr (sv\<lparr>ret := take (wrote sv) (ret sv) @ data
                            @ drop (wrote sv + length data) (ret sv),
                    wrote := wrote sv + length data\<rparr>))"

definition writeHeader :: "TensorSaver \<Rightarrow> error + TensorSaver" where
  "writeHeader sv =
     (if offset sv + hblen sv + 8 < 0 then Inl (Error ''RangeError: Invalid typed array length'')
      else
        let sv0 = sv\<lparr>ret := replicate (nat (offset sv + hblen sv + 8)) 0, wrote := 0\<rparr>
        in case default_write (lenbuf sv0) sv0 of
             Inl e \<Rightarrow> Inl e
           | Inr sv1 \<Rightarrow>
               (case default_write (hdrBuf sv1) sv1 of
                  Inl e \<Rightarrow> Inl e
                | Inr sv2 \<Rightarrow>
                    if hblen sv2 > int (length (hdrBuf sv2))
                    then default_write (js_slice padder 0 (hblen sv2 - int (length (hdrBuf sv2)))) sv2
                    else Inr sv2))"

text \<open>
  The read \<open>this.hdr[name]["data_offsets"][1]\<close>: an own property, or for the key
  \<open>__proto__\<close> the prototype.
\<close>

definition recorded_end :: "TensorSaver \<Rightarrow> string \<Rightarrow> int option" where
  "recorded_end sv nm =
     (case (if nm = ''__proto__'' then hdr_proto sv else map_of (hdr sv) nm) of
        Some (JObj e) \<Rightarrow>
          (case map_of e ''data_offsets'' of
             Some (JArr [a, JNum b]) \<Rightarrow> Some b
           | _ \<Rightarrow> None)
      | _ \<Rightarrow> None)"

fun writeTensors_loop ::
  "store \<Rightarrow> (string \<times> nat) list \<Rightarrow> int \<Rightarrow> TensorSaver \<Rightarrow> error + TensorSaver" where
  "writeTensors_loop s [] written sv = Inr sv"
| "writeTensors_loop s ((nm, t) # rest) written sv =
     (let data = bytes (tensor_at s t); len = int (length data)
      in case default_write data sv of
           Inl e \<Rightarrow> Inl e
         | Inr sv1 \<Rightarrow>
             (case (if js_and len 7 \<noteq> 0
                    then default_write (js_slice padder 0 (8 - js_and len 7)) sv1
                    else Inr sv1) of
                Inl e \<Rightarrow> Inl e
              | Inr sv2 \<Rightarrow>
                  let written' = (if js_and len 7 \<noteq> 0 then written + len + (8 - js_and len 7)
                                  else written + len)
                  in case recorded_end sv2 nm of
                       None \<Rightarrow> Inl (Error ''TypeError: Cannot read properties of undefined'')
                     | Some e \<Rightarrow>
                         if align8 e \<noteq> written'
                         then Inl (Error ''Internal tensor alignment problem'')
                         else writeTensors_loop s rest written' sv2))"

definition writeTensors :: "store \<Rightarrow> TensorSaver \<Rightarrow> error + TensorSaver" where
  "writeTensors s sv = writeTensors_loop s (tes sv) 0 sv"

definition saveSafeTensors :: "(json \<Rightarrow> Bytes) \<Rightarrow> nat \<Rightarrow> store \<Rightarrow> error + Bytes" where
  "saveSafeTensors stringify c s =
     (let save = calcOffset s (new_TensorSaver s c)
      in case calcHeader stringify save of
           Inl e \<Rightarrow> Inl e
         | Inr save1 \<Rightarrow>
             (case writeHeader save1 of
                Inl e \<Rightarrow> Inl e
              | Inr save2 \<Rightarrow>
                  (case writeTensors s save2 of
                     Inl e \<Rightarrow> Inl e
                   | Inr save3 \<Rightarrow> Inr (ret save3))))"

section \<open>The decoder\<close>

text \<open>
  \<open>TextDecoder.decode\<close> followed by \<open>JSON.parse\<close> is the parameter \<open>parse\<close>; \<open>None\<close> is
  its \<open>SyntaxError\<close>.

  The index \<open>8 + hdrsize + data_offsets[i]\<close> handed to \<open>slice\<close>: a number, \<open>null\<close> or a
  boolean is added to \<open>8 + hdrsize\<close>; a string, or the text of an array or an object,
  is appended to the decimal text of \<open>8 + hdrsize\<close>, and \<open>slice\<close> reads a number out
  of the result.
\<close>

definition index_sum :: "int \<Rightarrow> json \<Rightarrow> error + number" where
  "index_sum base v =
     (case ToPrimitive v of
        Inl e \<Rightarrow> Inl e
      | Inr p \<Rightarrow>
          (case p of
             JStr s \<Rightarrow> Inr (StringToNumber (show_int base @ s))
           | _ \<Rightarrow> Inr (js_plus (Finite (of_int base)) (prim_number p))))"

definition slice_index :: "nat \<Rightarrow> int \<Rightarrow> json \<Rightarrow> error + int" where
  "slice_index len base v =
     (case index_sum base v of Inl e \<Rightarrow> Inl e | Inr x \<Rightarrow> Inr (slice_arg len x))"

text \<open>A property read \<open>val.key\<close> on a parsed value; \<open>None\<close> is \<open>undefined\<close>.\<close>

definition js_prop :: "json \<Rightarrow> string \<Rightarrow> json option" where
  "js_prop v key = (case v of JObj kvs \<Rightarrow> map_of kvs key | _ \<Rightarrow> None)"

text \<open>
  The destructuring \<open>const {dtype, shape, data_offsets} = val\<close> of an entry that
  Stage B has let through: with or without leniency \<open>dtype\<close> is a string, \<open>shape\<close> an
  array and \<open>data_offsets\<close> an array of two elements. Any other value does not reach
  this point and reads as \<open>None\<close>.
\<close>

definition entry_parts :: "json \<Rightarrow> (string \<times> json list \<times> json \<times> json) option" where
  "entry_parts v =
     (case (js_prop v ''dtype'', js_prop v ''shape'', js_prop v ''data_offsets'') of
        (Some (JStr dtype), Some (JArr shp), Some (JArr [a, b])) \<Rightarrow> Some (dtype, shp, a, b)
      | _ \<Rightarrow> None)"

fun populate ::
  "Bytes \<Rightarrow> int \<Rightarrow> nat \<Rightarrow> (string \<times> json) list \<Rightarrow> store \<Rightarrow> (error + unit) \<times> store" where
  "populate data hdrsize r [] s = (Inr (), s)"
| "populate data hdrsize r ((nm, v) # rest) s =
     (if nm = ''__metadata__'' then
        (case object_entries v of
           Inl e \<Rightarrow> (Inl e, s)
         | Inr kvs \<Rightarrow> populate data hdrsize r rest (setAllMetadata r (Map_of_entries kvs) s))
      else
        (case entry_parts v of
           Some (dtype, shp, a, b) \<Rightarrow>
             (case slice_index (length data) (8 + hdrsize) a of
                Inl e \<Rightarrow> (Inl e, s)
              | Inr i \<Rightarrow>
                  (case slice_index (length data) (8 + hdrsize) b of
                     Inl e \<Rightarrow> (Inl e, s)
                   | Inr j \<Rightarrow>
                       (case addTensor_raw r nm (js_slice data i j) dtype shp s of
                          (Inl e, s1) \<Rightarrow> (Inl e, s1)
                        | (Inr t, s1) \<Rightarrow> populate data hdrsize r rest s1)))
         | None \<Rightarrow> (Inl (Error ''TypeError: not a validated tensor entry''), s)))"

definition parseSafeTensors ::
  "(Bytes \<Rightarrow> json option) \<Rightarrow> Bytes \<Rightarrow> bool \<Rightarrow> store \<Rightarrow> (error + nat) \<times> store" where
  "parseSafeTensors parse data ignoreInvalid s =
     (case sanityCheckTensorsHeader ignoreInvalid data (int (length data)) of
        Inl e \<Rightarrow> (Inl e, s)
      | Inr val \<Rightarrow>
          let hdrsize = unsafeGetHeaderSize data;
              (r, s1) = new_TensorMap s
          in case parse (js_slice data 8 (8 + hdrsize)) of
               None \<Rightarrow> (Inl (Error ''SyntaxError''), s1)
             | Some j \<Rightarrow>
                 (case sanityCheckTensorsParsed ignoreInvalid j (int (length data) - 8 - hdrsize) of
                    Inl e \<Rightarrow> (Inl e, s1)
                  | Inr u \<Rightarrow>
                      (case object_entries j of
                         Inl e \<Rightarrow> (Inl e, s1)
                       | Inr kvs \<Rightarrow>
                           (case populate data hdrsize r kvs s1 of
                              (Inl e, s2) \<Rightarrow> (Inl e, s2)
                            | (Inr u, s2) \<Rightarrow> (Inr r, s2)))))"

section \<open>JSON text\<close>

text \<open>
  \<open>JSON.stringify\<close> and \<open>JSON.parse\<close> belong to the platform, and the encoder and the
  decoder above take them as parameters. For statements about concrete archives they
  are written out here for the JSON texts this development evaluates: ASCII text,
  integers written without fraction or exponent, and in strings the two-character
  escapes and \<open>\u00XX\<close>. On any other text \<open>json_parse\<close> answers \<open>None\<close>, which says
  nothing about the platform; no statement below rests on such an answer.
\<close>

definition hex_digit :: "nat \<Rightarrow> char" where
  "hex_digit n = (if n < 10 then char_of (48 + n) else char_of (87 + n))"

definition quote_char :: "char \<Rightarrow> string" where
  "quote_char c =
     (let n = (of_char c :: nat) in
      if n = 34 then [CHR 0x5C, CHR 0x22]
      else if n = 92 then [CHR 0x5C, CHR 0x5C]
      else if n = 8 then [CHR 0x5C, CHR ''b'']
      else if n = 12 then [CHR 0x5C, CHR ''f'']
      else if n = 10 then [CHR 0x5C, CHR ''n'']
      else if n = 13 then [CHR 0x5C, CHR ''r'']
      else if n = 9 then [CHR 0x5C, CHR ''t'']
      else if n < 32 then [CHR 0x5C, CHR ''u'', CHR ''0'', CHR ''0'', hex_digit (n div 16), hex_digit (n mod 16)]
      else [c])"

definition quote :: "string \<Rightarrow> string" where
  "quote s = CHR 0x22 # concat (map quote_char s) @ [CHR 0x22]"

fun join_comma :: "string list \<Rightarrow> string" where
  "join_comma [] = []"
| "join_comma [x] = x"
| "join_comma (x # y # r) = x @ CHR '','' # join_comma (y # r)"

fun stringify_text :: "json \<Rightarrow> string"
  and stringify_members :: "(string \<times> json) list \<Rightarrow> string list"
where
  "stringify_text JNull = ''null''"
| "stringify_text (JBool b) = (if b then ''true'' else ''false'')"
| "stringify_text (JNum n) = show_int n"
| "stringify_text (JStr s) = quote s"
| "stringify_text (JArr xs) = CHR ''['' # join_comma (map stringify_text xs) @ [CHR '']'']"
| "stringify_text (JObj kvs) = CHR ''{'' # join_comma (stringify_members kvs) @ [CHR ''}'']"
| "stringify_members [] = []"
| "stringify_members ((k, v) # r) = (quote k @ CHR '':'' # stringify_text v) # stringify_members r"

text \<open>\<open>TextEncoder.encode\<close> on code units below 256: one byte, or the two bytes of UTF-8.\<close>

definition utf8_char :: "char \<Rightarrow> Bytes" where
  "utf8_char c =
     (let n = (of_char c :: nat) in
      if n < 128 then [of_nat n] else [of_nat (192 + n div 64), of_nat (128 + n mod 64)])"

definition json_stringify :: "json \<Rightarrow> Bytes" where
  "json_stringify j = concat (map utf8_char (stringify_text j))"

definition is_ws :: "char \<Rightarrow> bool" where
  "is_ws c = (c = CHR '' '' \<or> c = CHR 0x09 \<or> c = CHR 0x0A \<or> c = CHR 0x0D)"

definition skip_ws :: "string \<Rightarrow> string" where
  "skip_ws cs = dropWhile is_ws cs"

definition hex_value :: "char \<Rightarrow> nat option" where
  "hex_value c =
     (let n = (of_char c :: nat) in
      if 48 \<le> n \<and> n \<le> 57 then Some (n - 48)
      else if 97 \<le> n \<and> n \<le> 102 then Some (n - 87)
      else if 65 \<le> n \<and> n \<le> 70 then Some (n - 55)
      else None)"

definition unescape :: "char \<Rightarrow> char option" where
  "unescape e =
     (if e = CHR 0x22 \<or> e = CHR 0x5C \<or> e = CHR ''/'' then Some e
      else if e = CHR ''b'' then Some (CHR 0x08)
      else if e = CHR ''f'' then Some (CHR 0x0C)
      else if e = CHR ''n'' then Some (CHR 0x0A)
      else if e = CHR ''r'' then Some (CHR 0x0D)
      else if e = CHR ''t'' then Some (CHR 0x09)
      else None)"

text \<open>The characters of a string after its opening quote, up to the closing one.\<close>

fun parse_chars :: "string \<Rightarrow> string \<Rightarrow> (string \<times> string) option" where
  "parse_chars acc [] = None"
| "parse_chars acc [c] = (if c = CHR 0x22 then Some (rev acc, []) else None)"
| "parse_chars acc (c # e # cs) =
     (if c = CHR 0x22 then Some (rev acc, e # cs)
      else if c = CHR 0x5C then
        (case unescape e of
           Some x \<Rightarrow> parse_chars (x # acc) cs
         | None \<Rightarrow>
             (case cs of
                a # b # h # l # cs' \<Rightarrow>
                  (case (hex_value h, hex_value l) of
                     (Some hi, Some lo) \<Rightarrow>
                       if e = CHR ''u'' \<and> a = CHR ''0'' \<and> b = CHR ''0''
                       then parse_chars (char_of (16 * hi + lo) # acc) cs'
                       else None
                   | _ \<Rightarrow> None)
              | _ \<Rightarrow> None))
      else if (of_char c :: nat) < 32 then None
      else parse_chars (c # acc) (e # cs))"

text \<open>
  A number: an optional sign, then \<open>0\<close> or a run of digits that does not start with \<open>0\<close>.
  A fraction or an exponent is not read.
\<close>

definition parse_number :: "string \<Rightarrow> (json \<times> string) option" where
  "parse_number cs =
     (let neg = (cs \<noteq> [] \<and> hd cs = CHR ''-'');
          body = (if neg then tl cs else cs);
          ds = (if body \<noteq> [] \<and> hd body = CHR ''0'' then ''0'' else takeWhile is_digit body);
          rest = drop (length ds) body
      in if ds = [] then None
         else if rest \<noteq> [] \<and> (hd rest = CHR ''.'' \<or> hd rest = CHR ''e'' \<or> hd rest = CHR ''E'')
         then None
         else Some (JNum (if neg then - digits_value 10 ds else digits_value 10 ds), rest))"

text \<open>
  The recursive descent. The first argument bounds the number of nested calls; the
  length of the text is enough, since every call follows a consumed character.
  An object is built by defining its members in the order of the text, so that a
  repeated key keeps its first place and its last value.
\<close>

fun parse_value :: "nat \<Rightarrow> string \<Rightarrow> (json \<times> string) option"
  and parse_elements :: "nat \<Rightarrow> json list \<Rightarrow> string \<Rightarrow> (json list \<times> string) option"
  and parse_members ::
    "nat \<Rightarrow> (string \<times> json) list \<Rightarrow> string \<Rightarrow> ((string \<times> json) list \<times> string) option"
where
  "parse_value 0 cs = None"
| "parse_value (Suc f) cs =
     (case skip_ws cs of
        [] \<Rightarrow> None
      | c # r \<Rightarrow>
          if c = CHR ''{'' then
            (case skip_ws r of
               [] \<Rightarrow> None
             | d # r' \<Rightarrow>
                 if d = CHR ''}'' then Some (JObj [], r')
                 else (case parse_members f [] (d # r') of
                         None \<Rightarrow> None
                       | Some (kvs, r'') \<Rightarrow> Some (JObj kvs, r'')))
          else if c = CHR ''['' then
            (case skip_ws r of
               [] \<Rightarrow> None
             | d # r' \<Rightarrow>
                 if d = CHR '']'' then Some (JArr [], r')
                 else (case parse_elements f [] (d # r') of
                         None \<Rightarrow> None
                       | Some (xs, r'') \<Rightarrow> Some (JArr xs, r'')))
          else if c = CHR 0x22 then
            (case parse_chars [] r of
               None \<Rightarrow> None
             | Some (str, r') \<Rightarrow> Some (JStr str, r'))
          else if take 4 (c # r) = ''null'' then Some (JNull, drop 4 (c # r))
          else if take 4 (c # r) = ''true'' then Some (JBool True, drop 4 (c # r))
          else if take 5 (c # r) = ''false'' then Some (JBool False, drop 5 (c # r))
          else parse_number (c # r))"
| "parse_elements 0 acc cs = None"
| "parse_elements (Suc f) acc cs =
     (case parse_value f cs of
        None \<Rightarrow> None
      | Some (v, r) \<Rightarrow>
          (case skip_ws r of
             [] \<Rightarrow> None
           | d # r' \<Rightarrow>
               if d = CHR '','' then parse_elements f (acc @ [v]) r'
               else if d = CHR '']'' then Some (acc @ [v], r')
               else None))"
| "parse_members 0 obj cs = None"
| "parse_members (Suc f) obj cs =
     (case skip_ws cs of
        [] \<Rightarrow> None
      | q # r \<Rightarrow>
          if q \<noteq> CHR 0x22 then None
          else
            (case parse_chars [] r of
               None \<Rightarrow> None
             | Some (k, r1) \<Rightarrow>
                 (case skip_ws r1 of
                    [] \<Rightarrow> None
                  | colon # r2 \<Rightarrow>
                      if colon \<noteq> CHR '':'' then None
                      else
                        (case parse_value f r2 of
                           None \<Rightarrow> None
                         | Some (v, r3) \<Rightarrow>
                             (case skip_ws r3 of
                                [] \<Rightarrow> None
                              | d # r4 \<Rightarrow>
                                  if d = CHR '','' then parse_members f (js_define obj k v) r4
                                  else if d = CHR ''}'' then Some (js_define obj k v, r4)
                                  else None)))))"

text \<open>\<open>TextDecoder.decode\<close> on ASCII bytes, then \<open>JSON.parse\<close>.\<close>

definition json_parse :: "Bytes \<Rightarrow> json option" where
  "json_parse data =
     (if \<exists>b \<in> set data. 128 \<le> unat b then None
      else
        let cs = map (\<lambda>b. char_of (unat b)) data
        in case parse_value (Suc (length cs)) cs of
             None \<Rightarrow> None
           | Some (j, r) \<Rightarrow> if skip_ws r = [] then Some j else None)"

section \<open>Views of a container and of an archive\<close>

text \<open>
  What the round trip compares: per map key the format, the shape and the bytes of
  the tensor, and the metadata.
\<close>

definition tensor_view :: "store \<Rightarrow> nat \<Rightarrow> (string \<times> string \<times> json list \<times> Bytes) list" where
  "tensor_view s c =
     map (\<lambda>(k, a). (k, format (tensor_at s a), shape (tensor_at s a), bytes (tensor_at s a)))
       (refs (map_at s c))"

text \<open>The header object the encoder builds for a container.\<close>

definition header_entries :: "store \<Rightarrow> nat \<Rightarrow> (string \<times> json) list" where
  "header_entries s c = hdr (calcOffset s (new_TensorSaver s c))"

definition header_of :: "store \<Rightarrow> nat \<Rightarrow> json" where
  "header_of s c = JObj (header_entries s c)"

text \<open>A bound on the length of the data section: every tensor with at most 7 bytes of padding.\<close>

definition sizes :: "store \<Rightarrow> (string \<times> nat) list \<Rightarrow> int" where
  "sizes s T = (\<Sum>(k, a) \<leftarrow> T. int (length (bytes (tensor_at s a))) + 7)"

text \<open>
  The containers the round trip is stated for. Keys of a \<open>Map\<close> are distinct. No
  tensor is called \<open>__metadata__\<close> (the reserved key) or \<open>__proto__\<close>, and no metadata
  key is \<open>__proto__\<close>; formats are not empty; shapes hold numbers and metadata values
  are strings, as the types \<open>Shape\<close> and \<open>Map\<close> of strings say; every tensor has at
  least one byte, and the data section stays below \<open>2 ^ 31\<close> bytes.
\<close>

definition plain_container :: "store \<Rightarrow> nat \<Rightarrow> bool" where
  "plain_container s c =
     (distinct (map fst (refs (map_at s c)))
      \<and> distinct (map fst (metadata (map_at s c)))
      \<and> (\<forall>(k, a) \<in> set (refs (map_at s c)).
            k \<noteq> ''__metadata__'' \<and> k \<noteq> ''__proto__''
            \<and> format (tensor_at s a) \<noteq> []
            \<and> bytes (tensor_at s a) \<noteq> []
            \<and> (\<forall>d \<in> set (shape (tensor_at s a)). typeof d = ''number''))
      \<and> (\<forall>(k, v) \<in> set (metadata (map_at s c)). k \<noteq> ''__proto__'' \<and> typeof v = ''string'')
      \<and> sizes s (refs (map_at s c)) < 2147483648)"

text \<open>
  What the round trip needs from the platform, for one header \<open>h\<close>: its text starts with
  an opening brace, is at most 100 MiB long, and is read back as \<open>h\<close> when followed by
  the spaces that pad it to a multiple of 8.
\<close>

definition platform_roundtrip :: "(json \<Rightarrow> Bytes) \<Rightarrow> (Bytes \<Rightarrow> json option) \<Rightarrow> json \<Rightarrow> bool" where
  "platform_roundtrip stringify parse h =
     (let text = stringify h; n = int (length text)
      in text \<noteq> [] \<and> hd text = 123 \<and> n \<le> 100 * 1024 * 1024
         \<and> parse (text @ replicate (nat (align8 n - n)) 32) = Some h)"

text \<open>Names that the platform does not move to the front of an object.\<close>

definition no_index_keys :: "store \<Rightarrow> nat \<Rightarrow> bool" where
  "no_index_keys s c =
     ((\<forall>k \<in> fst ` set (refs (map_at s c)). \<not> is_array_index k)
      \<and> (\<forall>k \<in> fst ` set (metadata (map_at s c)). \<not> is_array_index k))"

text \<open>
  The layout of the data section, as the two loops of the encoder produce it: the
  header entries with their running offsets, and the tensors' bytes, each followed by
  spaces up to the next multiple of 8.
\<close>

fun layout :: "store \<Rightarrow> (string \<times> nat) list \<Rightarrow> int \<Rightarrow> (string \<times> json) list" where
  "layout s [] off = []"
| "layout s ((k, a) # r) off =
     (k, header_entry (tensor_at s a) off)
       # layout s r (off + align8 (int (length (bytes (tensor_at s a)))))"

fun data_end :: "store \<Rightarrow> (string \<times> nat) list \<Rightarrow> int \<Rightarrow> int" where
  "data_end s [] off = off"
| "data_end s ((k, a) # r) off = data_end s r (off + align8 (int (length (bytes (tensor_at s a)))))"

definition padding :: "nat \<Rightarrow> Bytes" where
  "padding n = replicate ((8 - n mod 8) mod 8) 32"

fun data_section :: "store \<Rightarrow> (string \<times> nat) list \<Rightarrow> Bytes" where
  "data_section s [] = []"
| "data_section s ((k, a) # r) =
     bytes (tensor_at s a) @ padding (length (bytes (tensor_at s a))) @ data_section s r"

text \<open>
  The archive: the length field, the header text, spaces up to a multiple of 8, and
  the data section.
\<close>

definition archive :: "(json \<Rightarrow> Bytes) \<Rightarrow> store \<Rightarrow> nat \<Rightarrow> Bytes" where
  "archive stringify s c =
     (let text = stringify (header_of s c); n = int (length text)
      in length_field (align8 n) @ text @ replicate (nat (align8 n - n)) 32
           @ data_section s (refs (map_at s c)))"

text \<open>The entries of a parsed header that describe tensors, and their ranges.\<close>

definition tensor_entries :: "(string \<times> json) list \<Rightarrow> (string \<times> json) list" where
  "tensor_entries kvs = filter (\<lambda>(k, v). k \<noteq> ''__metadata__'') kvs"

definition entry_range :: "json \<Rightarrow> json \<times> json" where
  "entry_range v = (case entry_parts v of Some (dtype, shp, a, b) \<Rightarrow> (a, b) | None \<Rightarrow> (JNull, JNull))"

text \<open>
  What the decoder stores for a parsed header: per tensor entry its key, its \<open>dtype\<close>,
  its \<open>shape\<close> array as it stands, and the slice of the input between its two offsets;
  and as metadata the entries of the last \<open>__metadata__\<close> value.
\<close>

definition decoded_entry :: "Bytes \<Rightarrow> int \<Rightarrow> string \<times> json \<Rightarrow> string \<times> string \<times> json list \<times> Bytes" where
  "decoded_entry data hdrsize kv =
     (case entry_parts (snd kv) of
        Some (dtype, shp, a, b) \<Rightarrow>
          (fst kv, dtype, shp,
           (case (slice_index (length data) (8 + hdrsize) a,
                  slice_index (length data) (8 + hdrsize) b) of
              (Inr i, Inr j) \<Rightarrow> js_slice data i j
            | _ \<Rightarrow> []))
      | None \<Rightarrow> (fst kv, [], [], []))"

definition decoded_view ::
  "Bytes \<Rightarrow> int \<Rightarrow> (string \<times> json) list \<Rightarrow> (string \<times> string \<times> json list \<times> Bytes) list" where
  "decoded_view data hdrsize kvs = map (decoded_entry data hdrsize) (tensor_entries kvs)"

fun final_metadata :: "(string \<times> json) list \<Rightarrow> (string \<times> json) list \<Rightarrow> (string \<times> json) list" where
  "final_metadata [] m = m"
| "final_metadata ((k, v) # r) m =
     final_metadata r
       (if k = ''__metadata__''
        then (case object_entries v of Inr kvs \<Rightarrow> Map_of_entries kvs | Inl e \<Rightarrow> m)
        else m)"

text \<open>Stores reached through the public operations, for the concrete statements below.\<close>

definition one_map_store :: store where
  "one_map_store = snd (new_TensorMap empty_store)"

definition loose_tensor_store :: store where
  "loose_tensor_store = snd (new_TensorRef ''m'' [2] ''U8'' [JNum 1] one_map_store)"

definition owned_tensor_store :: store where
  "owned_tensor_store = snd (addTensor_raw 0 ''n'' [1] ''U8'' [JNum 1] one_map_store)"

definition taken_name_store :: store where
  "taken_name_store = snd (new_TensorRef ''m'' [2] ''U8'' [JNum 1] owned_tensor_store)"

text \<open>The tensor named \<open>m\<close>, added to the container under the key \<open>n\<close>.\<close>

definition other_key_store :: store where
  "other_key_store = snd (addTensor_ref 0 ''n'' 0 loose_tensor_store)"

definition contained_header :: json where
  "contained_header =
     JObj [(''a'', JObj [(''dtype'', JStr ''U8''), (''shape'', JArr [JNum 4]),
                        (''data_offsets'', JArr [JNum 4, JNum 8])]),
           (''b'', JObj [(''dtype'', JStr ''U8''), (''shape'', JArr [JNum 12]),
                        (''data_offsets'', JArr [JNum 0, JNum 12])])]"

text \<open>A container with a tensor of \<open>2 ^ 31\<close> bytes followed by a tensor of one byte.\<close>

definition large_tensor_store :: store where
  "large_tensor_store =
     snd (addTensor_raw 0 ''b'' [5] ''U8'' [JNum 1]
       (snd (addTensor_raw 0 ''a'' (replicate 2147483648 0) ''U8'' [JNum 2147483648]
          one_map_store)))"

text \<open>
  Concrete containers and archives. \<open>test_store\<close> is the container of the repository's
  test: three tensors \<open>snark\<close>, \<open>snork\<close> and \<open>snurk\<close> (the last one added as an existing
  tensor) and the metadata \<open>foo = bar\<close>, \<open>baz = quux\<close>. \<open>ten_store\<close> holds the tensor of
  the test archive, and \<open>ten_archive\<close> is that archive: the length field 64, the header
  \<^verbatim>\<open>{"ten":{"dtype":"BF16","shape":[2,3],"data_offsets":[0,12]}}\<close> with four spaces, the bytes
  1 to 12 and four spaces. \<open>reserved_name_store\<close> has one tensor named \<open>__metadata__\<close>.
\<close>

definition test_store :: store where
  "test_store =
     (let s1 = snd (addTensor_raw 0 ''snark'' [1, 2, 3, 4, 5, 6, 7, 8, 9, 10, 11, 12] ''UINT8''
                      [JNum 1, JNum 3, JNum 4] one_map_store);
          s2 = snd (addTensor_raw 0 ''snork'' [0, 1, 1, 0] ''UINT8'' [JNum 4] s1);
          (t, s3) = new_TensorRef ''snurk'' [0, 1, 1, 0] ''UINT8'' [JNum 2, JNum 2] s2;
          s4 = snd (addTensor_ref 0 ''snurk'' t s3)
      in setMetaValue 0 ''baz'' (JStr ''quux'') (setMetaValue 0 ''foo'' (JStr ''bar'') s4))"

definition ten_store :: store where
  "ten_store =
     snd (addTensor_raw 0 ''ten'' [1, 2, 3, 4, 5, 6, 7, 8, 9, 10, 11, 12] ''BF16''
            [JNum 2, JNum 3] one_map_store)"

definition ten_archive :: Bytes where
  "ten_archive =
   [64, 0, 0, 0, 0, 0, 0, 0, 123, 34, 116, 101, 110, 34, 58, 123, 34, 100, 116, 121, 112,
    101, 34, 58, 34, 66, 70, 49, 54, 34, 44, 34, 115, 104, 97, 112, 101, 34, 58, 91, 50,
    44, 51, 93, 44, 34, 100, 97, 116, 97, 95, 111, 102, 102, 115, 101, 116, 115, 34, 58,
    91, 48, 44, 49, 50, 93, 125, 125, 32, 32, 32, 32, 1, 2, 3, 4, 5, 6, 7, 8, 9, 10, 11,
    12, 32, 32, 32, 32]"

definition reserved_name_store :: store where
  "reserved_name_store = snd (addTensor_raw 0 ''__metadata__'' [7] ''U8'' [JNum 1] one_map_store)"

text \<open>
  \<open>stray_byte_archive\<close>: the length field 8, the header \<^verbatim>\<open>{}\<close> with six spaces, and one
  byte of data that no tensor refers to.
\<close>

definition stray_byte_archive :: Bytes where
  "stray_byte_archive =
   [8, 0, 0, 0, 0, 0, 0, 0, 123, 125, 32, 32, 32, 32, 32, 32, 65]"

text \<open>
  \<open>short_tensor_archive\<close>: the header
  \<^verbatim>\<open>{"t":{"dtype":"U8","shape":[5],"data_offsets":[0,4]}}\<close>, a shape of five elements over
  four bytes of data.
\<close>

definition short_tensor_archive :: Bytes where
  "short_tensor_archive =
   [56, 0, 0, 0, 0, 0, 0, 0, 123, 34, 116, 34, 58, 123, 34, 100, 116, 121, 112, 101, 34,
    58, 34, 85, 56, 34, 44, 34, 115, 104, 97, 112, 101, 34, 58, 91, 53, 93, 44, 34, 100,
    97, 116, 97, 95, 111, 102, 102, 115, 101, 116, 115, 34, 58, 91, 48, 44, 52, 93, 125,
    125, 32, 32, 32, 1, 2, 3, 4, 32, 32, 32, 32]"

text \<open>
  \<open>lenient_archive\<close>: the header
  \<^verbatim>\<open>{"t":{"dtype":"U8","shape":["x",2],"data_offsets":[0,100],"extra":1},\<close>
  \<^verbatim>\<open>"u":{"dtype":"U8","shape":[4],"data_offsets":[0,4]},"__metadata__":{"n":5}}\<close>
  over eight bytes of data: a shape element that is no number, an end offset past the
  data, an unrecognised field, two overlapping ranges and a metadata value that is no
  string.
\<close>

definition lenient_archive :: Bytes where
  "lenient_archive =
   [144, 0, 0, 0, 0, 0, 0, 0, 123, 34, 116, 34, 58, 123, 34, 100, 116, 121, 112, 101, 34,
    58, 34, 85, 56, 34, 44, 34, 115, 104, 97, 112, 101, 34, 58, 91, 34, 120, 34, 44, 50,
    93, 44, 34, 100, 97, 116, 97, 95, 111, 102, 102, 115, 101, 116, 115, 34, 58, 91, 48,
    44, 49, 48, 48, 93, 44, 34, 101, 120, 116, 114, 97, 34, 58, 49, 125, 44, 34, 117, 34,
    58, 123, 34, 100, 116, 121, 112, 101, 34, 58, 34, 85, 56, 34, 44, 34, 115, 104, 97,
    112, 101, 34, 58, 91, 52, 93, 44, 34, 100, 97, 116, 97, 95, 111, 102, 102, 115, 101,
    116, 115, 34, 58, 91, 48, 44, 52, 93, 125, 44, 34, 95, 95, 109, 101, 116, 97, 100, 97,
    116, 97, 95, 95, 34, 58, 123, 34, 110, 34, 58, 53, 125, 125, 1, 2, 3, 4, 32, 32, 32, 32]"

(*PROPERTIES*)
section \<open>Properties\<close>

lemmas store_defs =
  empty_store_def new_TensorMap_def new_TensorRef_def set_refs_def set_parent_def
  getTensor_def private_setTensor_def addTensor_ref_def addTensor_raw_def
  removeTensor_ref_def removeTensor_def setTensor_def getOrMakeTensor_def set_name_def
  owned_def

lemmas example_store_defs =
  one_map_store_def loose_tensor_store_def owned_tensor_store_def taken_name_store_def

subsection \<open>Rounding, and the operators on numbers\<close>

lemma bit_length_bounds: "0 < n \<Longrightarrow> 2 ^ (bit_length n - 1) \<le> n \<and> n < 2 ^ bit_length n"
proof (induction n rule: bit_length.induct)
  case (1 n)
  show ?case
  proof (cases "n div 2 = 0")
    case True
    then have "n = 1" using "1.prems" by auto
    then show ?thesis by (simp add: bit_length.simps)
  next
    case False
    then have pos: "0 < n div 2" by simp
    from "1.IH" [OF _ pos] "1.prems"
    have ih: "2 ^ (bit_length (n div 2) - 1) \<le> n div 2" "n div 2 < 2 ^ bit_length (n div 2)" by auto
    have bl: "bit_length n = Suc (bit_length (n div 2))" using "1.prems" by (subst bit_length.simps) simp
    have b1: "0 < bit_length (n div 2)" using pos by (subst bit_length.simps) simp
    have "2 ^ (bit_length n - 1) = 2 * 2 ^ (bit_length (n div 2) - 1)"
      using b1 by (simp add: bl flip: power_Suc)
    also have "\<dots> \<le> 2 * (n div 2)" using ih(1) by simp
    also have "\<dots> \<le> n" by simp
    finally have lo: "2 ^ (bit_length n - 1) \<le> n" .
    have "n < 2 * (n div 2) + 2" by presburger
    also have "\<dots> \<le> 2 * 2 ^ bit_length (n div 2)" using ih(2) by simp
    finally have "n < 2 ^ bit_length n" by (simp add: bl)
    with lo show ?thesis by simp
  qed
qed

lemma bit_length_1: "bit_length 1 = 1" "bit_length (Suc 0) = Suc 0"
  by (simp_all add: bit_length.simps)

lemma floor_log2_nat:
  assumes "0 < n"
  shows "floor_log2 (of_nat n) = int (bit_length n) - 1"
proof -
  have q: "quotient_of (of_nat n :: rat) = (int n, 1)"
    using quotient_of_int [of "int n"] by simp
  have b: "0 < bit_length n" using assms by (subst bit_length.simps) simp
  have "(2::nat) ^ (bit_length n - 1) \<le> n" using bit_length_bounds [OF assms] by simp
  then have "(of_nat ((2::nat) ^ (bit_length n - 1)) :: rat) \<le> of_nat n" by (simp only: of_nat_le_iff)
  then have le: "(2::rat) ^ (bit_length n - 1) \<le> of_nat n" by simp
  have e: "nat (int (bit_length n) - int (bit_length 1)) = bit_length n - 1"
    "0 \<le> int (bit_length n) - int (bit_length 1)"
    using b by (simp_all add: bit_length_1)
  show ?thesis
    unfolding floor_log2_def q Let_def prod.case nat_int nat_1 pow_def
    using le e by (simp add: bit_length_1)
qed

text \<open>An integer below \<open>2 ^ 53\<close> is a double.\<close>

lemma round_double_exact:
  assumes ax: "\<bar>x\<bar> = of_nat n" and "0 < n" "n < 2 ^ 53"
  shows "round_double x = Finite x"
proof -
  define k where "k = bit_length n - 1"
  have b: "0 < bit_length n" using assms(2) by (subst bit_length.simps) simp
  have "(2::nat) ^ k \<le> n" using bit_length_bounds [OF assms(2)] by (simp add: k_def)
  then have "(2::nat) ^ k < 2 ^ 53" using assms(3) by simp
  then have k: "k < 53"
    by (simp only: power_strict_increasing_iff [of 2 k 53] one_less_numeral_iff semiring_norm)
  have fl: "floor_log2 (of_nat n) = int k" using floor_log2_nat [OF assms(2)] b by (simp add: k_def)
  define u :: rat where "u = pow 2 (int k - 52)"
  have u: "u = 1 / 2 ^ (52 - k)"
  proof (cases "k = 52")
    case True
    then show ?thesis by (simp add: u_def pow_def)
  next
    case False
    then have "int k - 52 < 0" "nat (52 - int k) = 52 - k" using k by auto
    then show ?thesis by (simp add: u_def pow_def)
  qed
  have q: "of_nat n / u = of_int (int (n * 2 ^ (52 - k)))" by (simp add: u)
  have again: "of_int (int (n * 2 ^ (52 - k))) * u = (of_nat n :: rat)" by (simp add: u)
  have small: "\<not> pow 2 1024 \<le> (of_nat n :: rat)"
  proof -
    have "(of_nat n :: rat) < of_nat (2 ^ 53)" using assms(3) by (simp only: of_nat_less_iff)
    also have "\<dots> \<le> 2 ^ 1024" by simp
    finally show ?thesis by (simp add: pow_def)
  qed
  have nz: "x \<noteq> 0" using ax assms(2) by auto
  have mx: "max (int k) (- 1022) = int k" by simp
  have half: "(0::rat) < 1 / 2" by simp
  have sgn: "(if 0 < x then of_nat n else - of_nat n) = x"
    using ax by (auto simp: abs_if split: if_splits)
  show ?thesis
    unfolding round_double_def Let_def
    by (simp only: nz if_False ax fl mx u_def [symmetric] q floor_of_int
          diff_self again small half if_True sgn)
qed

lemma round_double_int:
  assumes "\<bar>n\<bar> < 2 ^ 53"
  shows "round_double (of_int n) = Finite (of_int n)"
proof (cases "n = 0")
  case True
  then show ?thesis by (simp add: round_double_def)
next
  case False
  define m where "m = nat \<bar>n\<bar>"
  have m: "0 < m" "m < 2 ^ 53" using False assms by (simp_all add: m_def nat_less_iff)
  have "\<bar>of_int n :: rat\<bar> = of_nat m" by (simp add: m_def)
  then show ?thesis using m by (rule round_double_exact)
qed

lemma IsLessThan_numbers: "IsLessThan (JNum a) (JNum b) = Inr (Some (a < b))"
  by (simp add: IsLessThan_def ToPrimitive_def)

lemma js_compare_numbers:
  "js_lt (JNum a) (JNum b) = Inr (a < b)"
  "js_gt (JNum a) (JNum b) = Inr (b < a)"
  "js_le (JNum a) (JNum b) = Inr (a \<le> b)"
  "js_ge (JNum a) (JNum b) = Inr (b \<le> a)"
  by (auto simp: js_lt_def js_gt_def js_le_def js_ge_def IsLessThan_numbers)

lemma slice_index_number:
  assumes "\<bar>base + n\<bar> < 9007199254740992"
  shows "slice_index len base (JNum n) = Inr (base + n)"
proof -
  have "\<bar>base + n\<bar> < 2 ^ 53" using assms by simp
  then have "round_double (of_int base + of_int n) = Finite (of_int (base + n))"
    using round_double_int [of "base + n"] by simp
  then show ?thesis
    by (simp add: slice_index_def index_sum_def ToPrimitive_def slice_arg_def)
qed

lemmas stageB_defs =
  sanityCheckTensorsParsed_def checkTensorValue_def new_tac_def attrOk_def check_attr_def
  checkTensorShape_def checkDataOffsets_def checkDataOffsetBasics_def pairInRange_def
  js_compare_numbers and_also_def checkTensorOverlap_def assertAttributePresence_def
  checkMetadata_def

subsection \<open>Arithmetic of the 32-bit operators\<close>

lemma js_and_7: "js_and n 7 = n mod 8"
proof -
  have "signed_take_bit 31 (7::int) = 7" by simp
  moreover have "signed_take_bit 31 n AND 7 = take_bit 3 (signed_take_bit 31 n)"
    by (simp add: take_bit_eq_mask mask_eq_exp_minus_1)
  moreover have "take_bit 3 (signed_take_bit 31 n) = take_bit 3 n"
    by (simp add: take_bit_signed_take_bit)
  ultimately show ?thesis by (simp add: js_and_def ToInt32_def take_bit_eq_mod)
qed

lemma ToInt32_id: "- 2147483648 \<le> x \<Longrightarrow> x < 2147483648 \<Longrightarrow> ToInt32 x = x"
  unfolding ToInt32_def by (simp add: signed_take_bit_int_eq_self)

lemma and_not_7: "(x::int) AND NOT 7 = x - x mod 8"
proof -
  have "x AND NOT (mask 3) = push_bit 3 (drop_bit 3 x)"
    by (rule bit_eqI) (auto simp: bit_simps)
  moreover have "push_bit 3 (drop_bit 3 x) = 8 * (x div 8)"
    by (simp add: push_bit_eq_mult drop_bit_eq_div)
  moreover have "(mask 3 :: int) = 7" by (simp add: mask_eq_exp_minus_1)
  ultimately show ?thesis by (simp add: minus_mod_eq_mult_div [symmetric])
qed

lemma and_minus_8: "(x::int) AND - 8 = x - x mod 8"
  using and_not_7 [of x] by simp

lemma round_up_8: "((n::int) + 7) - (n + 7) mod 8 = n + (- n) mod 8"
proof -
  have "(n + 7) mod 8 = 7 - (- n) mod 8"
  proof -
    have "(n + 7) mod 8 = (7 - (- n)) mod 8" by (simp add: add.commute)
    also have "\<dots> = (7 - (- n) mod 8) mod 8" by (simp only: mod_diff_right_eq)
    also have "\<dots> = 7 - (- n) mod 8"
    proof (rule mod_pos_pos_trivial)
      have "0 \<le> (- n) mod 8" "(- n) mod 8 < 8" by simp_all
      then show "0 \<le> 7 - (- n) mod 8" "7 - (- n) mod 8 < 8" by linarith+
    qed
    finally show ?thesis .
  qed
  then show ?thesis by simp
qed

lemma align8_eq: assumes "0 \<le> n" "n + 7 < 2147483648" shows "align8 n = n + (- n) mod 8"
proof -
  have "ToInt32 (n + 7) = n + 7" using assms by (intro ToInt32_id) auto
  moreover have "ToInt32 (NOT 7) = NOT 7" by (simp add: ToInt32_def)
  ultimately have "align8 n = (n + 7) - (n + 7) mod 8"
    by (simp add: align8_def js_and_def and_minus_8)
  also have "\<dots> = n + (- n) mod 8" by (rule round_up_8)
  finally show ?thesis .
qed

lemma and_255: "0 \<le> (x::int) \<Longrightarrow> x < 2147483648 \<Longrightarrow> js_and x 255 = x mod 256"
proof -
  assume a: "0 \<le> x" "x < 2147483648"
  have "(255::int) = mask 8" by (simp add: mask_eq_exp_minus_1)
  then have "x AND 255 = take_bit 8 x" by (simp add: take_bit_eq_mask)
  moreover have "ToInt32 x = x" using a by (intro ToInt32_id) auto
  moreover have "ToInt32 255 = 255" by (simp add: ToInt32_def)
  ultimately show ?thesis by (simp add: js_and_def take_bit_eq_mod)
qed

lemma js_shr_eq: "0 \<le> (x::int) \<Longrightarrow> x < 2147483648 \<Longrightarrow> js_shr x k = x div 2 ^ k"
  by (simp add: js_shr_def ToInt32_id drop_bit_eq_div)

lemma le_bytes_sum:
  assumes "0 \<le> (h::int)" "h < 2147483648"
  shows "h mod 256 + (h div 256) mod 256 * 256 + (h div 65536) mod 256 * 256 * 256
           + (h div 16777216) mod 256 * 256 * 256 * 256 = h"
proof -
  define a where "a = h div 256"
  define b where "b = a div 256"
  define c where "c = b div 256"
  have b_eq: "h div 65536 = b"
    unfolding b_def a_def by (simp add: div_mult2_eq [symmetric])
  have c_eq: "h div 16777216 = c"
    unfolding c_def b_def a_def by (simp add: div_mult2_eq [symmetric])
  have "0 \<le> c" "c < 128"
    using assms unfolding c_eq [symmetric] by auto
  then have c_mod: "c mod 256 = c" by simp
  have h: "h = a * 256 + h mod 256" unfolding a_def by simp
  have a: "a = b * 256 + a mod 256" unfolding b_def by simp
  have b: "b = c * 256 + b mod 256" unfolding c_def by simp
  show ?thesis
    unfolding b_eq c_eq c_mod a_def [symmetric] using h a b by algebra
qed

lemma header_size_bytes:
  assumes "0 \<le> w0" "w0 < 256" "0 \<le> w1" "w1 < 256" "0 \<le> w2" "w2 < 256" "0 \<le> w3" "w3 < 256"
  shows "unsafeGetHeaderSize
           ([word_of_int w0, word_of_int w1, word_of_int w2, word_of_int w3, a, b, c, d] @ rest)
         = ToInt32 (w0 + w1 * 256 + w2 * 256 * 256 + w3 * 256 * 256 * 256)"
proof -
  have u: "\<And>y::int. 0 \<le> y \<Longrightarrow> y < 256 \<Longrightarrow> ToInt32 (uint (word_of_int y :: 8 word)) = y"
    by (simp add: uint_word_of_int take_bit_eq_mod ToInt32_id)
  show ?thesis
    using assms by (simp add: unsafeGetHeaderSize_def byte_at_def u)
qed

lemma lenbuf_decode:
  assumes "0 \<le> h" "h < 2147483648"
  shows "unsafeGetHeaderSize (length_field h @ rest) = h"
proof -
  have d8: "0 \<le> h div 256" "h div 256 < 2147483648" using assms by auto
  have d16: "0 \<le> h div 65536" "h div 65536 < 2147483648" using assms by auto
  have d24: "0 \<le> h div 16777216" "h div 16777216 < 2147483648" using assms by auto
  have s8: "js_shr h 8 = h div 256" using assms by (simp add: js_shr_eq)
  have s16: "js_shr h 16 = h div 65536" using assms by (simp add: js_shr_eq)
  have s24: "js_shr h 24 = h div 16777216" using assms by (simp add: js_shr_eq)
  have e0: "js_and h 255 = h mod 256" using assms by (rule and_255)
  have e1: "js_and (h div 256) 255 = (h div 256) mod 256" using d8 by (rule and_255)
  have e2: "js_and (h div 65536) 255 = (h div 65536) mod 256" using d16 by (rule and_255)
  have e3: "js_and (h div 16777216) 255 = (h div 16777216) mod 256" using d24 by (rule and_255)
  have m: "\<And>y::int. 0 \<le> y mod 256" "\<And>y::int. y mod 256 < 256" by simp_all
  have "unsafeGetHeaderSize
           ([word_of_int (h mod 256), word_of_int ((h div 256) mod 256),
             word_of_int ((h div 65536) mod 256), word_of_int ((h div 16777216) mod 256),
             0, 0, 0, 0] @ rest)
        = ToInt32 (h mod 256 + (h div 256) mod 256 * 256 + (h div 65536) mod 256 * 256 * 256
                   + (h div 16777216) mod 256 * 256 * 256 * 256)"
    by (rule header_size_bytes) (rule m)+
  also have "\<dots> = ToInt32 h"
    by (simp only: le_bytes_sum [OF assms])
  also have "\<dots> = h"
    using assms by (intro ToInt32_id) auto
  finally show ?thesis
    unfolding length_field_def s8 s16 s24 e0 e1 e2 e3 .
qed

subsection \<open>Objects and maps\<close>

lemma map_of_put_index: "k \<notin> fst ` set obj \<Longrightarrow> map_of (put_index i k v obj) = (map_of obj)(k \<mapsto> v)"
  by (induction obj) (auto simp: fun_eq_iff)

lemma set_put_index: "set (put_index i k v obj) = insert (k, v) (set obj)"
  by (induction obj) (auto split: if_splits)

lemma keys_put_index: "fst ` set (put_index i k v obj) = insert k (fst ` set obj)"
  by (simp add: set_put_index)

lemma distinct_put_index: "k \<notin> fst ` set obj \<Longrightarrow> distinct (map fst obj) \<Longrightarrow> distinct (map fst (put_index i k v obj))"
  by (induction obj) (auto simp: keys_put_index)

lemma map_of_js_define: "map_of (js_define obj k v) = (map_of obj)(k \<mapsto> v)"
  by (simp add: js_define_def map_of_put_index update_conv')

lemma keys_js_define: "fst ` set (js_define obj k v) = insert k (fst ` set obj)"
  by (simp add: js_define_def keys_put_index dom_update[unfolded dom_map_of_conv_image_fst]) 

lemma distinct_js_define: "distinct (map fst obj) \<Longrightarrow> distinct (map fst (js_define obj k v))"
  by (simp add: js_define_def distinct_put_index distinct_update)

lemma js_define_append: "\<not> is_array_index k \<Longrightarrow> k \<notin> fst ` set obj \<Longrightarrow> js_define obj k v = obj @ [(k, v)]"
  by (induction obj) (auto simp: js_define_def)

lemma map_of_assign_all:
  "''__proto__'' \<notin> fst ` set kvs \<Longrightarrow> map_of (assign_all obj kvs) = map_of obj ++ map_of (rev kvs)"
proof (induction kvs arbitrary: obj)
  case Nil
  then show ?case by (simp add: assign_all_def)
next
  case (Cons p kvs)
  obtain k v where p: "p = (k, v)" by (cases p)
  have "k \<noteq> ''__proto__''" using Cons.prems by (auto simp: p)
  then have "assign_all obj (p # kvs) = assign_all (js_define obj k v) kvs"
    by (simp add: assign_all_def p js_assign_def)
  then show ?case using Cons by (simp add: p map_of_js_define fun_eq_iff map_add_def split: option.splits)
qed

lemma distinct_assign_all:
  "distinct (map fst obj) \<Longrightarrow> distinct (map fst (assign_all obj kvs))"
proof (induction kvs arbitrary: obj)
  case Nil
  then show ?case by (simp add: assign_all_def)
next
  case (Cons p kvs)
  obtain k v where p: "p = (k, v)" by (cases p)
  have "assign_all obj (p # kvs) = assign_all (js_assign obj k v) kvs"
    by (simp add: assign_all_def p)
  moreover have "distinct (map fst (js_assign obj k v))"
    using Cons.prems by (simp add: js_assign_def distinct_js_define)
  ultimately show ?case using Cons.IH by simp
qed

lemma assign_all_append:
  "''__proto__'' \<notin> fst ` set kvs \<Longrightarrow> \<forall>k \<in> fst ` set kvs. \<not> is_array_index k \<Longrightarrow>
   distinct (map fst kvs) \<Longrightarrow> fst ` set obj \<inter> fst ` set kvs = {} \<Longrightarrow>
   assign_all obj kvs = obj @ kvs"
proof (induction kvs arbitrary: obj)
  case Nil
  then show ?case by (simp add: assign_all_def)
next
  case (Cons p kvs)
  obtain k v where p: "p = (k, v)" by (cases p)
  have step: "js_assign obj k v = obj @ [(k, v)]"
    using Cons.prems by (auto simp: p js_assign_def intro!: js_define_append)
  have "assign_all obj (p # kvs) = assign_all (obj @ [(k, v)]) kvs"
    by (simp add: assign_all_def p step)
  also have "\<dots> = (obj @ [(k, v)]) @ kvs"
    using Cons.prems by (intro Cons.IH) (auto simp: p)
  finally show ?case by (simp add: p)
qed

lemma map_of_rev_distinct: "distinct (map fst kvs) \<Longrightarrow> map_of (rev kvs) = map_of kvs"
  by (simp add: map_of_inject_set distinct_map)
  
lemma Map_of_entries_distinct: "distinct (map fst kvs) \<Longrightarrow> Map_of_entries kvs = kvs"
proof -
  have "distinct (map fst (m @ kvs)) \<Longrightarrow> foldl (\<lambda>m (k, v). AList.update k v m) m kvs = m @ kvs" for m
  proof (induction kvs arbitrary: m)
    case Nil then show ?case by simp
  next
    case (Cons p kvs)
    obtain k v where p: "p = (k, v)" by (cases p)
    have "AList.update k v m = m @ [(k, v)]"
      using Cons.prems by (induction m) (auto simp: p)
    then show ?case using Cons.IH [of "m @ [(k, v)]"] Cons.prems by (simp add: p)
  qed
  from this [of "[]"] show "distinct (map fst kvs) \<Longrightarrow> Map_of_entries kvs = kvs"
    by (simp add: Map_of_entries_def)
qed

lemma update_append: "k \<notin> fst ` set al \<Longrightarrow> AList.update k v al = al @ [(k, v)]"
  by (induction al) auto

subsection \<open>The encoder, step by step\<close>

lemma hdr_new_TensorSaver:
  "hdr (new_TensorSaver s c) =
     (if metadata (map_at s c) = [] then []
      else [(''__metadata__'', JObj (assign_all [] (metadata (map_at s c))))])"
  by (simp add: new_TensorSaver_def setMetadata_def js_assign_def js_define_def is_array_index_def
      is_digit_def Let_def)

lemma fields_new_TensorSaver:
  "tensorMap (new_TensorSaver s c) = c" "hdr_proto (new_TensorSaver s c) = None"
  by (simp_all add: new_TensorSaver_def setMetadata_def Let_def)

lemma calcOffset_loop_eq:
  "\<forall>(k, a) \<in> set T. k \<noteq> ''__proto__'' \<Longrightarrow>
   calcOffset_loop s T sv
     = sv\<lparr>hdr := assign_all (hdr sv) (layout s T (offset sv)),
          offset := data_end s T (offset sv)\<rparr>"
proof (induction T arbitrary: sv)
  case Nil
  then show ?case by (simp add: assign_all_def)
next
  case (Cons p T)
  obtain k a where p: "p = (k, a)" by (cases p)
  have k: "k \<noteq> ''__proto__''" using Cons.prems by (simp add: p)
  have rest: "\<forall>(k, a) \<in> set T. k \<noteq> ''__proto__''" using Cons.prems by simp
  show ?case
    unfolding p using k by (simp add: Cons.IH [OF rest] Let_def assign_all_def)
qed

lemma length_padding: "length (padding n) = (8 - n mod 8) mod 8"
  by (simp add: padding_def)

lemma pad_int: "int ((8 - n mod 8) mod 8) = (- int n) mod 8"
proof -
  have "n mod 8 \<le> 8" by simp
  then have "int ((8 - n mod 8) mod 8) = (8 - int n mod 8) mod 8"
    by (simp add: zmod_int of_nat_diff)
  also have "\<dots> = (- int n) mod 8"
    by (simp add: mod_minus_eq)
  finally show ?thesis .
qed

lemma pad_le: "(8 - (n::nat) mod 8) mod 8 \<le> 7"
proof -
  have "(8 - n mod 8) mod 8 < 8" by simp
  then show ?thesis by linarith
qed

lemma align8_nat: "int n + 7 < 2147483648 \<Longrightarrow> align8 (int n) = int (n + length (padding n))"
proof -
  assume b: "int n + 7 < 2147483648"
  have "align8 (int n) = int n + (- int n) mod 8"
    using b by (intro align8_eq) auto
  then show ?thesis by (simp add: length_padding pad_int)
qed

lemma sizes_simps: "sizes s [] = 0" "sizes s ((k, a) # T) = int (length (bytes (tensor_at s a))) + 7 + sizes s T"
  by (simp_all add: sizes_def)

lemma sizes_nonneg: "0 \<le> sizes s T"
  by (induction T) (auto simp: sizes_def)

lemma length_data_section_le: "int (length (data_section s T)) \<le> sizes s T"
proof (induction T)
  case Nil then show ?case by (simp add: sizes_def)
next
  case (Cons p T)
  obtain k a where p: "p = (k, a)" by (cases p)
  have "(8 - length (bytes (tensor_at s a)) mod 8) mod 8 \<le> 7" by (rule pad_le)
  then show ?case using Cons by (simp add: p sizes_simps length_padding)
qed

lemma data_end_eq:
  "sizes s T < 2147483648 \<Longrightarrow> data_end s T off = off + int (length (data_section s T))"
proof (induction T arbitrary: off)
  case Nil then show ?case by simp
next
  case (Cons p T)
  obtain k a where p: "p = (k, a)" by (cases p)
  have b: "int (length (bytes (tensor_at s a))) + 7 < 2147483648" "sizes s T < 2147483648"
    using Cons.prems sizes_nonneg [of s T] by (simp_all add: p sizes_simps)
  show ?case
    by (simp add: p Cons.IH [OF b(2)] align8_nat [OF b(1)])
qed

lemma default_write_fill:
  assumes "ret sv = pre @ replicate k 0" "wrote sv = length pre" "length data \<le> k"
  shows "default_write data sv
           = Inr (sv\<lparr>ret := (pre @ data) @ replicate (k - length data) 0,
                     wrote := length (pre @ data)\<rparr>)"
  using assms by (simp add: default_write_def)

lemma padder_slice: "0 \<le> k \<Longrightarrow> k \<le> 8 \<Longrightarrow> js_slice padder 0 k = replicate (nat k) 32"
proof -
  assume k: "0 \<le> k" "k \<le> 8"
  have p: "padder = replicate 8 32" by (simp add: padder_def numeral_eq_Suc)
  have "js_slice (replicate 8 (32::byte)) 0 k = replicate (nat k) 32"
    using k by (simp add: js_slice_def min_def)
  then show ?thesis unfolding p .
qed

lemma calcOffset_fields:
  assumes "\<forall>(k, a) \<in> set (refs (map_at s (tensorMap sv))). k \<noteq> ''__proto__''"
  shows "hdr (calcOffset s sv) = assign_all (hdr sv) (layout s (refs (map_at s (tensorMap sv))) 0)"
    and "offset (calcOffset s sv) = data_end s (refs (map_at s (tensorMap sv))) 0"
    and "tes (calcOffset s sv) = refs (map_at s (tensorMap sv))"
    and "hdr_proto (calcOffset s sv) = hdr_proto sv"
  using assms by (simp_all add: calcOffset_def Let_def calcOffset_loop_eq)

lemma calcHeader_ok:
  assumes "align8 (int (length (stringify (JObj (hdr sv))))) \<le> 100 * 1024 * 1024"
  shows "calcHeader stringify sv
           = Inr (sv\<lparr>lenbuf := length_field (align8 (int (length (stringify (JObj (hdr sv)))))),
                     hdrBuf := stringify (JObj (hdr sv)),
                     hblen := align8 (int (length (stringify (JObj (hdr sv)))))\<rparr>)"
  using assms by (simp add: calcHeader_def Let_def)

lemma default_write_fields:
  assumes "ret sv = pre @ replicate k 0" "wrote sv = length pre" "length data \<le> k"
  shows "\<exists>sv'. default_write data sv = Inr sv'
           \<and> ret sv' = (pre @ data) @ replicate (k - length data) 0
           \<and> wrote sv' = length (pre @ data)
           \<and> hdr sv' = hdr sv \<and> hdr_proto sv' = hdr_proto sv \<and> tes sv' = tes sv
           \<and> hblen sv' = hblen sv \<and> hdrBuf sv' = hdrBuf sv"
  using default_write_fill [OF assms] by simp

lemma length_length_field: "length (length_field n) = 8"
  by (simp add: length_field_def)

lemma writeHeader_ok:
  assumes "offset sv = int d" "hblen sv = int (n + p)" "p \<le> 8" "hdrBuf sv = text" "length text = n"
    and "lenbuf sv = lb" "length lb = 8"
  shows "\<exists>sv'. writeHeader sv = Inr sv'
           \<and> ret sv' = (lb @ text @ replicate p 32) @ replicate d 0
           \<and> wrote sv' = length (lb @ text @ replicate p 32)
           \<and> hdr sv' = hdr sv \<and> hdr_proto sv' = hdr_proto sv \<and> tes sv' = tes sv"
proof -
  define sv0 where "sv0 = sv\<lparr>ret := replicate (nat (offset sv + hblen sv + 8)) 0, wrote := 0\<rparr>"
  have r0: "ret sv0 = [] @ replicate (8 + n + p + d) 0" "wrote sv0 = length ([]::Bytes)"
    using assms by (simp_all add: sv0_def nat_add_distrib add.commute add.left_commute)
  have f0: "lenbuf sv0 = lb" "hdrBuf sv0 = text" "hblen sv0 = int (n + p)"
      "hdr sv0 = hdr sv" "hdr_proto sv0 = hdr_proto sv" "tes sv0 = tes sv"
    using assms by (simp_all add: sv0_def)
  from default_write_fields [OF r0, of lb] assms obtain sv1 where
    w1: "default_write lb sv0 = Inr sv1"
    and r1: "ret sv1 = ([] @ lb) @ replicate (8 + n + p + d - length lb) 0" "wrote sv1 = length ([] @ lb)"
    and f1: "hdr sv1 = hdr sv0" "hdr_proto sv1 = hdr_proto sv0" "tes sv1 = tes sv0"
            "hblen sv1 = hblen sv0" "hdrBuf sv1 = hdrBuf sv0"
    by auto
  have "length text \<le> 8 + n + p + d - length lb" using assms by simp
  from default_write_fields [OF r1 this] obtain sv2 where
    w2: "default_write text sv1 = Inr sv2"
    and r2: "ret sv2 = (([] @ lb) @ text) @ replicate (8 + n + p + d - length lb - length text) 0"
            "wrote sv2 = length (([] @ lb) @ text)"
    and f2: "hdr sv2 = hdr sv1" "hdr_proto sv2 = hdr_proto sv1" "tes sv2 = tes sv1"
            "hblen sv2 = hblen sv1" "hdrBuf sv2 = hdrBuf sv1"
    by auto
  have rest: "8 + n + p + d - length lb - length text = p + d" using assms by simp
  have nn: "\<not> offset sv + hblen sv + 8 < 0" using assms by simp
  have step: "writeHeader sv =
      (case default_write (lenbuf sv0) sv0 of
         Inl e \<Rightarrow> Inl e
       | Inr sv1 \<Rightarrow>
           (case default_write (hdrBuf sv1) sv1 of
              Inl e \<Rightarrow> Inl e
            | Inr sv2 \<Rightarrow>
                if hblen sv2 > int (length (hdrBuf sv2))
                then default_write (js_slice padder 0 (hblen sv2 - int (length (hdrBuf sv2)))) sv2
                else Inr sv2))"
    unfolding writeHeader_def Let_def sv0_def [symmetric] by (simp only: nn if_False)
  have hb1: "hdrBuf sv1 = text" using f1 f0 by simp
  have half: "writeHeader sv =
      (if hblen sv2 > int (length (hdrBuf sv2))
       then default_write (js_slice padder 0 (hblen sv2 - int (length (hdrBuf sv2)))) sv2
       else Inr sv2)"
    unfolding step f0(1) by (simp only: w1 w2 hb1 sum.case)
  have hb2: "hblen sv2 = int (n + p)" "int (length (hdrBuf sv2)) = int n"
    using f2 f1 f0 assms by simp_all
  show ?thesis
  proof (cases "p = 0")
    case True
    have "writeHeader sv = Inr sv2"
      unfolding half hb2 using True by simp
    then show ?thesis using r2 f2 f1 f0 True rest by simp
  next
    case False
    have sl: "js_slice padder 0 (hblen sv2 - int (length (hdrBuf sv2))) = replicate p 32"
      using assms f0 f1 f2 by (simp add: padder_slice)
    have "length (replicate p (32::byte)) \<le> p + d" by simp
    from default_write_fields [OF r2 [unfolded rest] this] obtain sv3 where
      w3: "default_write (replicate p 32) sv2 = Inr sv3"
      and r3: "ret sv3 = ((([] @ lb) @ text) @ replicate p 32) @ replicate (p + d - length (replicate p (32::byte))) 0"
              "wrote sv3 = length ((([] @ lb) @ text) @ replicate p 32)"
      and f3: "hdr sv3 = hdr sv2" "hdr_proto sv3 = hdr_proto sv2" "tes sv3 = tes sv2"
      by auto
    have "writeHeader sv = Inr sv3"
      unfolding half sl unfolding hb2 using False w3 by simp
    then show ?thesis using r3 f3 f2 f1 f0 by simp
  qed
qed

lemma recorded_end_entry:
  "k \<noteq> ''__proto__'' \<Longrightarrow> map_of (hdr sv) k = Some (header_entry t off) \<Longrightarrow>
   recorded_end sv k = Some (off + int (length (bytes t)))"
  by (simp add: recorded_end_def header_entry_def)

lemma padding_slice:
  "js_and (int n) 7 \<noteq> 0 \<Longrightarrow> js_slice padder 0 (8 - js_and (int n) 7) = padding n"
proof -
  assume nz: "js_and (int n) 7 \<noteq> 0"
  have m: "js_and (int n) 7 = int (n mod 8)" by (simp add: js_and_7 zmod_int)
  have "n mod 8 \<noteq> 0" using nz m by simp
  moreover have "n mod 8 < 8" by simp
  ultimately have e: "(8 - n mod 8) mod 8 = 8 - n mod 8" by simp
  have "js_slice padder 0 (8 - int (n mod 8)) = replicate (nat (8 - int (n mod 8))) 32"
    by (rule padder_slice) simp_all
  moreover have "nat (8 - int (n mod 8)) = 8 - n mod 8" by simp
  ultimately show ?thesis unfolding m padding_def e by simp
qed

lemma padding_none: "js_and (int n) 7 = 0 \<Longrightarrow> padding n = []"
proof -
  assume "js_and (int n) 7 = 0"
  then have "int (n mod 8) = 0" by (simp add: js_and_7 zmod_int)
  then show ?thesis by (simp add: padding_def)
qed

lemma written_step:
  "(if js_and (int n) 7 \<noteq> 0 then off + int n + (8 - js_and (int n) 7) else off + int n)
   = off + int (n + length (padding n))"
proof (cases "js_and (int n) 7 = 0")
  case True
  then show ?thesis by (simp add: padding_none)
next
  case False
  have m: "js_and (int n) 7 = int (n mod 8)" by (simp add: js_and_7 zmod_int)
  have "n mod 8 \<noteq> 0" using False m by simp
  moreover have "n mod 8 < 8" by simp
  ultimately have e: "(8 - n mod 8) mod 8 = 8 - n mod 8" by simp
  show ?thesis using False unfolding m by (simp add: length_padding e)
qed

lemma align8_shift:
  assumes "0 \<le> off" "off mod 8 = 0" "off + int n + 7 < 2147483648"
  shows "align8 (off + int n) = off + int (n + length (padding n))"
proof -
  have "align8 (off + int n) = (off + int n) + (- (off + int n)) mod 8"
    using assms by (intro align8_eq) auto
  also have "(- (off + int n)) mod 8 = (- int n) mod 8"
  proof -
    have "- (off + int n) = - int n - off" by simp
    then have "(- (off + int n)) mod 8 = (- int n - off) mod 8" by (simp only:)
    also have "\<dots> = (- int n - off mod 8) mod 8" by (simp only: mod_diff_right_eq)
    finally show ?thesis using assms by simp
  qed
  finally show ?thesis by (simp add: length_padding pad_int)
qed

lemma writeTensors_loop_ok:
  assumes "\<forall>(k, a) \<in> set T. k \<noteq> ''__proto__''"
    and "\<forall>(k, e) \<in> set (layout s T off). map_of (hdr sv) k = Some e"
    and "0 \<le> off" "off mod 8 = 0" "off + sizes s T < 2147483648"
    and "ret sv = pre @ replicate m 0" "wrote sv = length pre"
    and "length (data_section s T) \<le> m"
  shows "\<exists>sv'. writeTensors_loop s T off sv = Inr sv'
           \<and> ret sv' = (pre @ data_section s T) @ replicate (m - length (data_section s T)) 0"
  using assms
proof (induction T arbitrary: off sv pre m)
  case Nil
  then show ?case by simp
next
  case (Cons x T)
  obtain k a where x: "x = (k, a)" by (cases x)
  define data where "data = bytes (tensor_at s a)"
  define n where "n = length data"
  define off' where "off' = off + int (n + length (padding n))"
  have k: "k \<noteq> ''__proto__''" using Cons.prems(1) by (simp add: x)
  have look: "map_of (hdr sv) k = Some (header_entry (tensor_at s a) off)"
    using Cons.prems(2) by (simp add: x)
  have sz: "off + (int n + 7) + sizes s T < 2147483648"
    using Cons.prems(5) by (simp add: x sizes_simps n_def data_def)
  have szT: "0 \<le> sizes s T" by (rule sizes_nonneg)
  have nb: "int n + 7 < 2147483648" "off + int n + 7 < 2147483648"
    using sz szT Cons.prems(3) by linarith+
  have al: "align8 (int n) = int (n + length (padding n))" using nb by (intro align8_nat)
  have pl: "length (padding n) \<le> 7" by (simp add: length_padding pad_le)
  have lenm: "n + length (padding n) + length (data_section s T) \<le> m"
    using Cons.prems(8) by (simp add: x n_def data_def)
  have "length data \<le> m" using lenm by (simp add: n_def)
  from default_write_fields [OF Cons.prems(6) Cons.prems(7) this] obtain sv1 where
    w1: "default_write data sv = Inr sv1"
    and r1: "ret sv1 = (pre @ data) @ replicate (m - length data) 0" "wrote sv1 = length (pre @ data)"
    and f1: "hdr sv1 = hdr sv"
    by auto
  have "\<exists>sv2. (if js_and (int n) 7 \<noteq> 0
               then default_write (js_slice padder 0 (8 - js_and (int n) 7)) sv1
               else Inr sv1) = Inr sv2
          \<and> ret sv2 = ((pre @ data) @ padding n) @ replicate (m - length data - length (padding n)) 0
          \<and> wrote sv2 = length ((pre @ data) @ padding n) \<and> hdr sv2 = hdr sv"
  proof (cases "js_and (int n) 7 = 0")
    case True
    then show ?thesis using r1 f1 by (simp add: padding_none)
  next
    case False
    have "length (padding n) \<le> m - length data" using lenm by (simp add: n_def)
    from default_write_fields [OF r1 this] f1 False show ?thesis
      by (auto simp: padding_slice)
  qed
  then obtain sv2 where
    w2: "(if js_and (int n) 7 \<noteq> 0
          then default_write (js_slice padder 0 (8 - js_and (int n) 7)) sv1
          else Inr sv1) = Inr sv2"
    and r2: "ret sv2 = ((pre @ data) @ padding n) @ replicate (m - length data - length (padding n)) 0"
            "wrote sv2 = length ((pre @ data) @ padding n)"
    and f2: "hdr sv2 = hdr sv"
    by blast
  have re: "recorded_end sv2 k = Some (off + int n)"
    using recorded_end_entry [OF k, of sv2 "tensor_at s a" off] look f2
    by (simp add: n_def data_def)
  have chk: "align8 (off + int n) = off'"
    unfolding off'_def using Cons.prems(3,4) nb by (intro align8_shift)
  have wr: "(if js_and (int n) 7 \<noteq> 0 then off + int n + (8 - js_and (int n) 7) else off + int n) = off'"
    unfolding off'_def by (rule written_step)
  have unfold: "writeTensors_loop s (x # T) off sv = writeTensors_loop s T off' sv2"
    unfolding x writeTensors_loop.simps Let_def data_def [symmetric] n_def [symmetric]
    by (simp only: w1 w2 wr re chk sum.case option.case if_False simp_thms)
  have IH_layout: "\<forall>(k, e) \<in> set (layout s T off'). map_of (hdr sv2) k = Some e"
    using Cons.prems(2) unfolding x f2 off'_def layout.simps data_def [symmetric] n_def [symmetric] al [symmetric]
    by simp
  have IH_off: "0 \<le> off'" "off' mod 8 = 0" "off' + sizes s T < 2147483648"
  proof -
    show "0 \<le> off'" unfolding off'_def using Cons.prems(3) by simp
    have "off' = align8 (off + int n)" using chk by simp
    also have "\<dots> = (off + int n + 7) - (off + int n + 7) mod 8"
      using align8_eq [of "off + int n"] nb Cons.prems(3) round_up_8 [of "off + int n"] by simp
    finally show "off' mod 8 = 0" by (simp add: minus_mod_eq_mult_div)
    show "off' + sizes s T < 2147483648" unfolding off'_def using sz pl by simp
  qed
  have IH_len: "length (data_section s T) \<le> m - length data - length (padding n)"
    using lenm by (simp add: n_def)
  from Cons.IH [OF _ IH_layout IH_off r2 IH_len] Cons.prems(1)
  obtain sv' where
    "writeTensors_loop s T off' sv2 = Inr sv'"
    "ret sv' = (((pre @ data) @ padding n) @ data_section s T)
                 @ replicate (m - length data - length (padding n) - length (data_section s T)) 0"
    by (auto simp: x)
  then show ?case
    unfolding unfold by (simp add: x data_def n_def)
qed

lemma keys_layout: "map fst (layout s T off) = map fst T"
  by (induction T arbitrary: off) auto

lemma map_of_distinct_mem: "distinct (map fst kvs) \<Longrightarrow> (k, v) \<in> set kvs \<Longrightarrow> map_of kvs k = Some v"
  by simp

lemma header_lookup:
  assumes "distinct (map fst T)" "\<forall>(k, a) \<in> set T. k \<noteq> ''__proto__''"
  shows "\<forall>(k, e) \<in> set (layout s T off). map_of (assign_all h0 (layout s T off)) k = Some e"
proof -
  have d: "distinct (map fst (layout s T off))" using assms(1) by (simp add: keys_layout)
  have p: "''__proto__'' \<notin> fst ` set (layout s T off)"
  proof -
    have "fst ` set (layout s T off) = fst ` set T"
      using keys_layout [of s T off] by (metis set_map)
    then show ?thesis using assms(2) by auto
  qed
  have m: "map_of (assign_all h0 (layout s T off)) = map_of h0 ++ map_of (layout s T off)"
    using map_of_assign_all [OF p] map_of_rev_distinct [OF d] by simp
  show ?thesis unfolding m using d by (auto simp: map_add_def)
qed

lemma align8_le_ceiling:
  assumes "0 \<le> n" "n \<le> 100 * 1024 * 1024"
  shows "align8 n \<le> 100 * 1024 * 1024" "n \<le> align8 n" "align8 n - n \<le> 7"
proof -
  have e: "align8 n = n + (- n) mod 8" using assms by (intro align8_eq) auto
  have r: "0 \<le> (- n) mod 8" "(- n) mod 8 < 8" by simp_all
  show "n \<le> align8 n" using e r by simp
  show "align8 n - n \<le> 7" using e r by simp
  have "align8 n = (n + 7) - (n + 7) mod 8" using e round_up_8 [of n] by simp
  also have "\<dots> = 8 * ((n + 7) div 8)" by (simp add: minus_mod_eq_mult_div)
  also have "\<dots> \<le> 8 * ((100 * 1024 * 1024 + 7) div 8)"
    using assms by (intro mult_left_mono zdiv_mono1) auto
  also have "\<dots> = 100 * 1024 * 1024" by simp
  finally show "align8 n \<le> 100 * 1024 * 1024" .
qed

lemma saveSafeTensors_archive:
  assumes dist: "distinct (map fst (refs (map_at s c)))"
    and np: "\<forall>(k, a) \<in> set (refs (map_at s c)). k \<noteq> ''__proto__''"
    and sz: "sizes s (refs (map_at s c)) < 2147483648"
    and len: "int (length (stringify (header_of s c))) \<le> 100 * 1024 * 1024"
  shows "saveSafeTensors stringify c s = Inr (archive stringify s c)"
proof -
  define T where "T = refs (map_at s c)"
  define sv0 where "sv0 = new_TensorSaver s c"
  define save where "save = calcOffset s sv0"
  define htext where "htext = stringify (header_of s c)"
  define n where "n = length htext"
  define hb where "hb = align8 (int n)"
  define p where "p = nat (hb - int n)"
  define d where "d = length (data_section s T)"
  have tm: "tensorMap sv0 = c" by (simp add: sv0_def fields_new_TensorSaver)
  have np': "\<forall>(k, a) \<in> set (refs (map_at s (tensorMap sv0))). k \<noteq> ''__proto__''"
    unfolding tm by (rule np)
  have save_hdr: "hdr save = assign_all (hdr sv0) (layout s T 0)"
    and save_off: "offset save = data_end s T 0"
    and save_tes: "tes save = T"
    unfolding save_def T_def using calcOffset_fields [OF np'] by (simp_all add: tm)
  have htext_eq: "stringify (JObj (hdr save)) = htext"
    by (simp add: htext_def header_of_def header_entries_def save_def sv0_def)
  have off_d: "offset save = int d"
    using data_end_eq [of s T 0] sz by (simp add: save_off d_def T_def)
  have n_le: "int n \<le> 100 * 1024 * 1024" using len by (simp add: n_def htext_def)
  have hb_facts: "hb \<le> 100 * 1024 * 1024" "int n \<le> hb" "hb - int n \<le> 7"
    unfolding hb_def using align8_le_ceiling [of "int n"] n_le by simp_all
  have hb_eq: "hb = int (n + p)" using hb_facts by (simp add: p_def)
  have p_le: "p \<le> 8" using hb_facts by (simp add: p_def)
  define save1 where
    "save1 = save\<lparr>lenbuf := length_field hb, hdrBuf := htext, hblen := hb\<rparr>"
  have c1: "calcHeader stringify save = Inr save1"
    using calcHeader_ok [of stringify save] hb_facts(1)
    by (simp add: htext_eq n_def [symmetric] hb_def [symmetric] save1_def)
  have f1: "offset save1 = int d" "hblen save1 = int (n + p)" "hdrBuf save1 = htext"
      "lenbuf save1 = length_field hb" "hdr save1 = hdr save" "tes save1 = T"
    using off_d hb_eq save_tes by (simp_all add: save1_def)
  from writeHeader_ok [OF f1(1) f1(2) p_le f1(3) n_def [symmetric] f1(4) length_length_field]
  obtain save2 where
    c2: "writeHeader save1 = Inr save2"
    and r2: "ret save2 = (length_field hb @ htext @ replicate p 32) @ replicate d 0"
            "wrote save2 = length (length_field hb @ htext @ replicate p 32)"
    and f2: "hdr save2 = hdr save1" "tes save2 = tes save1"
    by blast
  have look: "\<forall>(k, e) \<in> set (layout s T 0). map_of (hdr save2) k = Some e"
    unfolding f2 f1 save_hdr using header_lookup [of T s 0 "hdr sv0"] dist np
    by (simp add: T_def)
  have "\<exists>sv'. writeTensors_loop s T 0 save2 = Inr sv'
           \<and> ret sv' = ((length_field hb @ htext @ replicate p 32) @ data_section s T)
                         @ replicate (d - length (data_section s T)) 0"
    using np sz by (intro writeTensors_loop_ok look r2) (simp_all add: T_def d_def)
  then obtain save3 where
    c3: "writeTensors s save2 = Inr save3"
    and r3: "ret save3 = (length_field hb @ htext @ replicate p 32) @ data_section s T"
    by (auto simp: writeTensors_def f2 f1 d_def)
  have "saveSafeTensors stringify c s = Inr (ret save3)"
    unfolding saveSafeTensors_def Let_def sv0_def [symmetric] save_def [symmetric]
    by (simp only: c1 c2 c3 sum.case)
  then show ?thesis
    by (simp add: r3 archive_def Let_def htext_def [symmetric] n_def [symmetric]
        hb_def [symmetric] p_def T_def)
qed

subsection \<open>The layout of the data section\<close>

lemma length_layout: "length (layout s T off) = length T"
  by (induction T arbitrary: off) auto

lemma data_section_append: "data_section s (xs @ ys) = data_section s xs @ data_section s ys"
  by (induction xs) auto

lemma sizes_tail: "sizes s (x # T) < 2147483648 \<Longrightarrow> sizes s T < 2147483648"
  by (cases x) (simp add: sizes_simps)

lemma sizes_head:
  "sizes s ((k, a) # T) < 2147483648 \<Longrightarrow> int (length (bytes (tensor_at s a))) + 7 < 2147483648"
  using sizes_nonneg [of s T] by (simp add: sizes_simps)

lemma layout_nth:
  "sizes s T < 2147483648 \<Longrightarrow> i < length T \<Longrightarrow>
   layout s T off ! i
     = (fst (T ! i),
        header_entry (tensor_at s (snd (T ! i))) (off + int (length (data_section s (take i T)))))"
proof (induction T arbitrary: off i)
  case Nil
  then show ?case by simp
next
  case (Cons x T)
  obtain k a where x: "x = (k, a)" by (cases x)
  show ?case
  proof (cases i)
    case 0
    then show ?thesis by (simp add: x)
  next
    case (Suc j)
    have j: "j < length T" using Cons.prems(2) Suc by simp
    have al: "align8 (int (length (bytes (tensor_at s a))))
                = int (length (bytes (tensor_at s a)) + length (padding (length (bytes (tensor_at s a)))))"
      using sizes_head [of s k a T] Cons.prems(1) by (intro align8_nat) (simp add: x)
    show ?thesis
      using Cons.IH [OF sizes_tail [OF Cons.prems(1)] j] by (simp add: x Suc al add.assoc)
  qed
qed

lemma data_section_split:
  assumes "i < length T"
  shows "data_section s T
           = data_section s (take i T)
             @ bytes (tensor_at s (snd (T ! i)))
             @ padding (length (bytes (tensor_at s (snd (T ! i)))))
             @ data_section s (drop (Suc i) T)"
proof -
  have "T = take i T @ (fst (T ! i), snd (T ! i)) # drop (Suc i) T"
    using assms by (simp add: id_take_nth_drop)
  then have "data_section s T
      = data_section s (take i T @ (fst (T ! i), snd (T ! i)) # drop (Suc i) T)"
    by simp
  then show ?thesis by (simp only: data_section_append data_section.simps)
qed

lemma entry_within:
  assumes "i < length T"
  shows "length (data_section s (take i T)) + length (bytes (tensor_at s (snd (T ! i))))
           \<le> length (data_section s T)"
  using arg_cong [OF data_section_split [OF assms, of s], of length] by simp

lemma entry_bytes:
  assumes "i < length T"
  shows "take (length (bytes (tensor_at s (snd (T ! i)))))
              (drop (length (data_section s (take i T))) (data_section s T))
           = bytes (tensor_at s (snd (T ! i)))"
  by (subst data_section_split [OF assms, of s]) simp

lemma entry_before:
  assumes "i < j" "j < length T"
  shows "length (data_section s (take i T)) + length (bytes (tensor_at s (snd (T ! i))))
           \<le> length (data_section s (take j T))"
proof -
  have i': "i < length (take j T)" using assms by simp
  have "take i (take j T) = take i T" "take j T ! i = T ! i" using assms by (simp_all add: min_def)
  then show ?thesis using entry_within [OF i', of s] by simp
qed

lemma js_slice_nat:
  "i + n \<le> length xs \<Longrightarrow> js_slice xs (int i) (int i + int n) = take n (drop i xs)"
  by (simp add: js_slice_def min_def)

lemma js_slice_after_prefix:
  assumes "i + n \<le> length xs"
  shows "js_slice (pre @ xs) (int (length pre) + int i) (int (length pre) + int i + int n)
           = take n (drop i xs)"
proof -
  have "js_slice (pre @ xs) (int (length pre + i)) (int (length pre + i) + int n)
          = take n (drop (length pre + i) (pre @ xs))"
    using assms by (intro js_slice_nat) simp
  then show ?thesis by (simp add: add.assoc)
qed

subsection \<open>Stage B on disjoint ranges\<close>

lemma overlap_loop_ok:
  "\<forall>(x, y) \<in> set cov. checkTensorOverlap False x y v = Inr () \<Longrightarrow> overlap_loop False cov v = Inr ()"
  by (induction cov) auto

lemma overlap_apart:
  assumes "a < b" "c < d" "b \<le> c \<or> d \<le> a"
  shows "checkTensorOverlap False (JNum c) (JNum d) (JNum a, JNum b) = Inr ()"
  using assms by (auto simp: checkTensorOverlap_def js_compare_numbers and_also_def)

lemma checkTensorValue_entry:
  assumes "\<forall>d \<in> set (shape t). typeof d = ''number''"
    and "0 \<le> off" "off + int (length (bytes t)) \<le> chunk"
    and "\<forall>(x, y) \<in> set cov.
           checkTensorOverlap False x y (JNum off, JNum (off + int (length (bytes t)))) = Inr ()"
  shows "checkTensorValue False chunk cov (header_entry t off)
           = Inr (cov @ [(JNum off, JNum (off + int (length (bytes t))))])"
proof -
  have ov: "overlap_loop False cov (JNum off, JNum (off + int (length (bytes t)))) = Inr ()"
    using assms(4) by (rule overlap_loop_ok)
  have sh: "checkTensorShape False (JArr (shape t)) = Inr ()"
    using assms(1) by (auto simp: checkTensorShape_def)
  have rng: "pairInRange (JNum off, JNum (off + int (length (bytes t)))) chunk = Inr True"
    using assms(2,3) by (simp add: pairInRange_def js_compare_numbers and_also_def)
  have off: "checkDataOffsets False chunk cov (JArr [JNum off, JNum (off + int (length (bytes t)))])
           = Inr (cov @ [(JNum off, JNum (off + int (length (bytes t))))])"
    using ov rng by (simp add: checkDataOffsets_def checkDataOffsetBasics_def)
  show ?thesis
    by (simp add: checkTensorValue_def header_entry_def new_tac_def attrOk_def check_attr_def
        sh off assertAttributePresence_def)
qed

lemma parsed_loop_ok:
  assumes "distinct (map fst H)"
    and "\<And>v. (''__metadata__'', v) \<in> set H \<Longrightarrow> checkMetadata False v = Inr ()"
    and "\<And>k v. (k, v) \<in> set H \<Longrightarrow> k \<noteq> ''__metadata__'' \<Longrightarrow>
           \<exists>t off. v = header_entry t off \<and> (\<forall>d \<in> set (shape t). typeof d = ''number'')
              \<and> 0 \<le> off \<and> off + int (length (bytes t)) \<le> chunk"
    and "\<And>k v k' v'. (k, v) \<in> set H \<Longrightarrow> (k', v') \<in> set H \<Longrightarrow>
           k \<noteq> ''__metadata__'' \<Longrightarrow> k' \<noteq> ''__metadata__'' \<Longrightarrow> k \<noteq> k' \<Longrightarrow>
           checkTensorOverlap False (fst (entry_range v')) (snd (entry_range v')) (entry_range v) = Inr ()"
    and "\<And>x y k v. (x, y) \<in> set cov \<Longrightarrow> (k, v) \<in> set H \<Longrightarrow> k \<noteq> ''__metadata__'' \<Longrightarrow>
           checkTensorOverlap False x y (entry_range v) = Inr ()"
  shows "parsed_loop False chunk H cov = Inr ()"
  using assms
proof (induction H arbitrary: cov)
  case Nil
  then show ?case by simp
next
  case (Cons p H)
  obtain k v where p: "p = (k, v)" by (cases p)
  have dH: "distinct (map fst H)" and kH: "k \<notin> fst ` set H" using Cons.prems(1) by (auto simp: p)
  have mH: "\<And>v. (''__metadata__'', v) \<in> set H \<Longrightarrow> checkMetadata False v = Inr ()"
    using Cons.prems(2) by auto
  have eH: "\<And>k v. (k, v) \<in> set H \<Longrightarrow> k \<noteq> ''__metadata__'' \<Longrightarrow>
           \<exists>t off. v = header_entry t off \<and> (\<forall>d \<in> set (shape t). typeof d = ''number'')
              \<and> 0 \<le> off \<and> off + int (length (bytes t)) \<le> chunk"
    using Cons.prems(3) by (meson list.set_intros(2))
  have pH: "\<And>k v k' v'. (k, v) \<in> set H \<Longrightarrow> (k', v') \<in> set H \<Longrightarrow>
           k \<noteq> ''__metadata__'' \<Longrightarrow> k' \<noteq> ''__metadata__'' \<Longrightarrow> k \<noteq> k' \<Longrightarrow>
           checkTensorOverlap False (fst (entry_range v')) (snd (entry_range v')) (entry_range v) = Inr ()"
    using Cons.prems(4) by (meson list.set_intros(2))
  show ?case
  proof (cases "k = ''__metadata__''")
    case True
    have "checkMetadata False v = Inr ()" using Cons.prems(2) [of v] True by (simp add: p)
    moreover have "parsed_loop False chunk H cov = Inr ()"
    proof (rule Cons.IH [OF dH mH eH pH])
      fix x y k' v' assume "(x, y) \<in> set cov" "(k', v') \<in> set H" "k' \<noteq> ''__metadata__''"
      then show "checkTensorOverlap False x y (entry_range v') = Inr ()"
        using Cons.prems(5) [of x y k' v'] by simp
    qed
    ultimately show ?thesis by (simp add: p True)
  next
    case False
    from Cons.prems(3) [of k v] False obtain t off where
      v: "v = header_entry t off" and sh: "\<forall>d \<in> set (shape t). typeof d = ''number''"
      and rg: "0 \<le> off" "off + int (length (bytes t)) \<le> chunk"
      by (auto simp: p)
    have er: "entry_range v = (JNum off, JNum (off + int (length (bytes t))))"
      by (simp add: v entry_range_def entry_parts_def js_prop_def header_entry_def)
    have cl: "\<forall>(x, y) \<in> set cov. checkTensorOverlap False x y (entry_range v) = Inr ()"
      using Cons.prems(5) [of _ _ k v] False by (auto simp: p)
    have step: "checkTensorValue False chunk cov v = Inr (cov @ [entry_range v])"
      unfolding er unfolding v using sh rg cl [unfolded er] by (rule checkTensorValue_entry)
    have "parsed_loop False chunk H (cov @ [entry_range v]) = Inr ()"
    proof (rule Cons.IH [OF dH mH eH pH])
      fix x y k' v'
      assume xy: "(x, y) \<in> set (cov @ [entry_range v])" and m: "(k', v') \<in> set H"
        and nm: "k' \<noteq> ''__metadata__''"
      show "checkTensorOverlap False x y (entry_range v') = Inr ()"
      proof (cases "(x, y) \<in> set cov")
        case True
        then show ?thesis using Cons.prems(5) [of x y k' v'] m nm by simp
      next
        case False
        then have xy': "(x, y) = entry_range v" using xy by simp
        have "k' \<noteq> k" using m kH by force
        then have "checkTensorOverlap False (fst (entry_range v)) (snd (entry_range v))
                     (entry_range v') = Inr ()"
          using Cons.prems(4) [of k' v' k v] m nm \<open>k \<noteq> ''__metadata__''\<close> by (simp add: p)
        then show ?thesis using xy' by (metis fst_conv snd_conv)
      qed
    qed
    then show ?thesis using False by (simp add: p step)
  qed
qed

subsection \<open>Populating the container\<close>

lemma addTensor_raw_eq:
  assumes "getTensor r k s = None" "f \<noteq> []"
  shows "addTensor_raw r k d f sh s
     = (Inr (next_tensor s),
        s\<lparr>tensor_at := (tensor_at s)(next_tensor s :=
             \<lparr>name = k, bytes = d, format = f, shape = sh, parent = Some r\<rparr>),
          map_at := (map_at s)(r := (map_at s r)\<lparr>refs := refs (map_at s r) @ [(k, next_tensor s)]\<rparr>),
          next_tensor := Suc (next_tensor s)\<rparr>)"
proof -
  have "k \<notin> fst ` set (refs (map_at s r))"
    using assms(1) by (simp add: getTensor_def map_of_eq_None_iff)
  then have "AList.update k (next_tensor s) (refs (map_at s r)) = refs (map_at s r) @ [(k, next_tensor s)]"
    by (rule update_append)
  then show ?thesis
    using assms by (simp add: addTensor_raw_def new_TensorRef_def private_setTensor_def
        set_parent_def set_refs_def)
qed

lemma addTensor_raw_fails:
  "getTensor r k s \<noteq> None \<or> f = [] \<Longrightarrow> \<exists>e. addTensor_raw r k d f sh s = (Inl e, s)"
  by (auto simp: addTensor_raw_def)

lemma tensor_view_setAllMetadata: "tensor_view (setAllMetadata r m s) r = tensor_view s r"
  by (simp add: tensor_view_def setAllMetadata_def)

lemma decoded_view_simps:
  "decoded_view data h [] = []"
  "decoded_view data h ((k, v) # kvs)
     = (if k = ''__metadata__'' then decoded_view data h kvs
        else decoded_entry data h (k, v) # decoded_view data h kvs)"
  by (simp_all add: decoded_view_def tensor_entries_def)

lemma populate_view:
  assumes "populate data hdrsize r H s = (Inr (), s')"
    and "\<forall>a \<in> snd ` set (refs (map_at s r)). a < next_tensor s"
  shows "tensor_view s' r = tensor_view s r @ decoded_view data hdrsize H
         \<and> metadata (map_at s' r) = final_metadata H (metadata (map_at s r))
         \<and> (\<forall>a \<in> snd ` set (refs (map_at s' r)). a < next_tensor s')"
  using assms
proof (induction H arbitrary: s)
  case Nil
  then show ?case by (simp add: decoded_view_simps)
next
  case (Cons p H)
  obtain k v where p: "p = (k, v)" by (cases p)
  show ?case
  proof (cases "k = ''__metadata__''")
    case True
    from Cons.prems(1) obtain kvs where oe: "object_entries v = Inr kvs"
      by (cases "object_entries v") (auto simp: p True)
    define s1 where "s1 = setAllMetadata r (Map_of_entries kvs) s"
    have run: "populate data hdrsize r H s1 = (Inr (), s')"
      using Cons.prems(1) by (simp add: p True oe s1_def)
    have inv: "\<forall>a \<in> snd ` set (refs (map_at s1 r)). a < next_tensor s1"
      using Cons.prems(2) by (simp add: s1_def setAllMetadata_def)
    have v1: "tensor_view s1 r = tensor_view s r" by (simp add: s1_def tensor_view_setAllMetadata)
    have m1: "metadata (map_at s1 r) = Map_of_entries kvs" by (simp add: s1_def setAllMetadata_def)
    show ?thesis
      using Cons.IH [OF run inv] by (simp add: p True oe v1 m1 decoded_view_simps)
  next
    case False
    from Cons.prems(1) obtain dtype shp a b where ep: "entry_parts v = Some (dtype, shp, a, b)"
      by (cases "entry_parts v") (auto simp: p False)
    from Cons.prems(1) obtain i where si: "slice_index (length data) (8 + hdrsize) a = Inr i"
      by (cases "slice_index (length data) (8 + hdrsize) a") (auto simp: p False ep)
    from Cons.prems(1) obtain j where sj: "slice_index (length data) (8 + hdrsize) b = Inr j"
      by (cases "slice_index (length data) (8 + hdrsize) b") (auto simp: p False ep si)
    define d where "d = js_slice data i j"
    have ok: "getTensor r k s = None \<and> dtype \<noteq> []"
    proof (rule ccontr)
      assume "\<not> (getTensor r k s = None \<and> dtype \<noteq> [])"
      then obtain e where "addTensor_raw r k d dtype shp s = (Inl e, s)"
        using addTensor_raw_fails [of r k s dtype d shp] by auto
      then show False using Cons.prems(1) by (simp add: p False ep si sj d_def)
    qed
    define s1 where "s1 = s\<lparr>tensor_at := (tensor_at s)(next_tensor s :=
             \<lparr>name = k, bytes = d, format = dtype, shape = shp, parent = Some r\<rparr>),
          map_at := (map_at s)(r := (map_at s r)\<lparr>refs := refs (map_at s r) @ [(k, next_tensor s)]\<rparr>),
          next_tensor := Suc (next_tensor s)\<rparr>"
    have add: "addTensor_raw r k d dtype shp s = (Inr (next_tensor s), s1)"
      unfolding s1_def using ok by (intro addTensor_raw_eq) auto
    have run: "populate data hdrsize r H s1 = (Inr (), s')"
      using Cons.prems(1) by (simp add: p False ep si sj d_def [symmetric] add)
    have inv: "\<forall>a \<in> snd ` set (refs (map_at s1 r)). a < next_tensor s1"
      using Cons.prems(2) by (auto simp: s1_def less_Suc_eq)
    have old: "\<And>k' a. (k', a) \<in> set (refs (map_at s r)) \<Longrightarrow> tensor_at s1 a = tensor_at s a"
    proof -
      fix k' a assume "(k', a) \<in> set (refs (map_at s r))"
      then have "a \<in> snd ` set (refs (map_at s r))" by force
      then have "a < next_tensor s" using Cons.prems(2) by blast
      then show "tensor_at s1 a = tensor_at s a" by (simp add: s1_def)
    qed
    have v1: "tensor_view s1 r = tensor_view s r @ [decoded_entry data hdrsize (k, v)]"
    proof -
      have "map (\<lambda>(k, a). (k, format (tensor_at s1 a), shape (tensor_at s1 a), bytes (tensor_at s1 a)))
              (refs (map_at s r))
            = map (\<lambda>(k, a). (k, format (tensor_at s a), shape (tensor_at s a), bytes (tensor_at s a)))
              (refs (map_at s r))"
        using old by (intro map_cong) auto
      then show ?thesis
        by (simp add: tensor_view_def s1_def decoded_entry_def ep si sj d_def)
    qed
    have m1: "metadata (map_at s1 r) = metadata (map_at s r)" by (simp add: s1_def)
    show ?thesis
      using Cons.IH [OF run inv] by (simp add: p False v1 m1 decoded_view_simps)
  qed
qed

lemma populate_succeeds:
  assumes "distinct (map fst H)"
    and "\<And>v. (''__metadata__'', v) \<in> set H \<Longrightarrow> \<exists>kvs. object_entries v = Inr kvs"
    and "\<And>k v. (k, v) \<in> set H \<Longrightarrow> k \<noteq> ''__metadata__'' \<Longrightarrow>
           \<exists>dtype shp a b i j. entry_parts v = Some (dtype, shp, a, b) \<and> dtype \<noteq> []
              \<and> slice_index (length data) (8 + hdrsize) a = Inr i
              \<and> slice_index (length data) (8 + hdrsize) b = Inr j"
    and "fst ` set (refs (map_at s r)) \<inter> fst ` set H = {}"
  shows "\<exists>s'. populate data hdrsize r H s = (Inr (), s')"
  using assms
proof (induction H arbitrary: s)
  case Nil
  then show ?case by simp
next
  case (Cons p H)
  obtain k v where p: "p = (k, v)" by (cases p)
  have dH: "distinct (map fst H)" and kH: "k \<notin> fst ` set H" using Cons.prems(1) by (auto simp: p)
  have mH: "\<And>v. (''__metadata__'', v) \<in> set H \<Longrightarrow> \<exists>kvs. object_entries v = Inr kvs"
    using Cons.prems(2) by auto
  have eH: "\<And>k v. (k, v) \<in> set H \<Longrightarrow> k \<noteq> ''__metadata__'' \<Longrightarrow>
           \<exists>dtype shp a b i j. entry_parts v = Some (dtype, shp, a, b) \<and> dtype \<noteq> []
              \<and> slice_index (length data) (8 + hdrsize) a = Inr i
              \<and> slice_index (length data) (8 + hdrsize) b = Inr j"
    using Cons.prems(3) by (meson list.set_intros(2))
  show ?case
  proof (cases "k = ''__metadata__''")
    case True
    from Cons.prems(2) [of v] obtain kvs where oe: "object_entries v = Inr kvs"
      by (auto simp: p True)
    have "fst ` set (refs (map_at (setAllMetadata r (Map_of_entries kvs) s) r)) \<inter> fst ` set H = {}"
      using Cons.prems(4) by (auto simp: setAllMetadata_def p)
    from Cons.IH [OF dH mH eH this] show ?thesis by (simp add: p True oe)
  next
    case False
    from Cons.prems(3) [of k v] False obtain dtype shp a b i j where
      ep: "entry_parts v = Some (dtype, shp, a, b)" and ne: "dtype \<noteq> []"
      and si: "slice_index (length data) (8 + hdrsize) a = Inr i"
      and sj: "slice_index (length data) (8 + hdrsize) b = Inr j"
      by (auto simp: p)
    define d where "d = js_slice data i j"
    have free: "getTensor r k s = None"
      using Cons.prems(4) by (auto simp: getTensor_def map_of_eq_None_iff p)
    define s1 where "s1 = s\<lparr>tensor_at := (tensor_at s)(next_tensor s :=
             \<lparr>name = k, bytes = d, format = dtype, shape = shp, parent = Some r\<rparr>),
          map_at := (map_at s)(r := (map_at s r)\<lparr>refs := refs (map_at s r) @ [(k, next_tensor s)]\<rparr>),
          next_tensor := Suc (next_tensor s)\<rparr>"
    have add: "addTensor_raw r k d dtype shp s = (Inr (next_tensor s), s1)"
      unfolding s1_def using free ne by (intro addTensor_raw_eq)
    have "fst ` set (refs (map_at s1 r)) \<inter> fst ` set H = {}"
      using Cons.prems(4) kH by (auto simp: s1_def p)
    from Cons.IH [OF dH mH eH this] show ?thesis
      by (simp add: p False ep si sj d_def [symmetric] add)
  qed
qed

subsection \<open>Decoding an archive of the encoder\<close>

lemma js_slice_mid:
  "js_slice (pre @ mid @ post) (int (length pre)) (int (length pre) + int (length mid)) = mid"
  by (simp add: js_slice_def min_def)

lemma stageA_archive:
  assumes "0 \<le> hb" "hb \<le> 100 * 1024 * 1024" "htext \<noteq> []" "hd htext = 123"
    and "8 + hb \<le> int (length (length_field hb @ htext @ rest))"
  shows "unsafeGetHeaderSize (length_field hb @ htext @ rest) = hb"
    and "sanityCheckTensorsHeader False (length_field hb @ htext @ rest)
           (int (length (length_field hb @ htext @ rest))) = Inr hb"
proof -
  show sz: "unsafeGetHeaderSize (length_field hb @ htext @ rest) = hb"
    using assms(1,2) by (intro lenbuf_decode) auto
  obtain t' where t: "htext = 123 # t'" using assms(3,4) by (cases htext) auto
  have sl: "map uint (js_slice (length_field hb @ htext @ rest) 4 9) = [0, 0, 0, 0, 123]"
    by (simp add: length_field_def t js_slice_def)
  show "sanityCheckTensorsHeader False (length_field hb @ htext @ rest)
           (int (length (length_field hb @ htext @ rest))) = Inr hb"
    unfolding sanityCheckTensorsHeader_def sl sz Let_def using assms(2,5)
    by (simp add: arrayCompare_def)
qed

lemma layout_entry:
  assumes "sizes s T < 2147483648" "(k, v) \<in> set (layout s T 0)"
  shows "\<exists>i < length T. k = fst (T ! i)
           \<and> v = header_entry (tensor_at s (snd (T ! i))) (int (length (data_section s (take i T))))"
proof -
  from assms(2) obtain i where i: "i < length (layout s T 0)" "layout s T 0 ! i = (k, v)"
    by (auto simp: in_set_conv_nth)
  then have "i < length T" by (simp add: length_layout)
  with layout_nth [OF assms(1) this, of 0] i(2) show ?thesis by auto
qed

lemma entry_range_header_entry:
  "entry_range (header_entry t off) = (JNum off, JNum (off + int (length (bytes t))))"
  by (simp add: entry_range_def entry_parts_def js_prop_def header_entry_def)

lemma entry_parts_header_entry:
  "entry_parts (header_entry t off)
     = Some (format t, shape t, JNum off, JNum (off + int (length (bytes t))))"
  by (simp add: entry_parts_def js_prop_def header_entry_def)

lemma fst_decoded_entry: "fst (decoded_entry data h kv) = fst kv"
  by (cases "entry_parts (snd kv)") (auto simp: decoded_entry_def)

lemma keys_decoded_view: "map fst (decoded_view data h kvs) = map fst (tensor_entries kvs)"
  by (simp add: decoded_view_def fst_decoded_entry o_def)

lemma final_metadata_none:
  "''__metadata__'' \<notin> fst ` set H \<Longrightarrow> final_metadata H m = m"
  by (induction H arbitrary: m) auto

lemma final_metadata_one:
  assumes "distinct (map fst H)" "(''__metadata__'', v) \<in> set H" "object_entries v = Inr kvs"
  shows "final_metadata H m = Map_of_entries kvs"
  using assms
proof (induction H arbitrary: m)
  case Nil
  then show ?case by simp
next
  case (Cons p H)
  obtain k w where p: "p = (k, w)" by (cases p)
  show ?case
  proof (cases "k = ''__metadata__''")
    case True
    have "''__metadata__'' \<notin> fst ` set H" using Cons.prems(1) by (simp add: p True)
    moreover from this have "w = v" using Cons.prems(2) by (force simp: p True)
    ultimately show ?thesis using Cons.prems(3) by (simp add: p True final_metadata_none)
  next
    case False
    then show ?thesis using Cons by (auto simp: p)
  qed
qed

lemma decoded_entry_layout:
  assumes "sizes s T < 2147483648" "i < length T" "int (length pre) = 8 + hb"
    and "hb \<le> 100 * 1024 * 1024"
  shows "decoded_entry (pre @ data_section s T) hb (layout s T 0 ! i)
           = (fst (T ! i), format (tensor_at s (snd (T ! i))), shape (tensor_at s (snd (T ! i))),
              bytes (tensor_at s (snd (T ! i))))"
proof -
  define t where "t = tensor_at s (snd (T ! i))"
  define o_i where "o_i = length (data_section s (take i T))"
  have fit: "o_i + length (bytes t) \<le> length (data_section s T)"
    unfolding o_i_def t_def by (rule entry_within [OF assms(2)])
  have "js_slice (pre @ data_section s T) (int (length pre) + int o_i)
            (int (length pre) + int o_i + int (length (bytes t)))
          = take (length (bytes t)) (drop o_i (data_section s T))"
    using fit by (rule js_slice_after_prefix)
  also have "\<dots> = bytes t"
    unfolding o_i_def t_def by (rule entry_bytes [OF assms(2)])
  finally have sl: "js_slice (pre @ data_section s T) (8 + hb + int o_i)
            (8 + hb + (int o_i + int (length (bytes t)))) = bytes t"
    by (simp add: assms(3) add.assoc)
  have len: "int (length (data_section s T)) \<le> sizes s T" by (rule length_data_section_le)
  have b1: "\<bar>8 + hb + int o_i\<bar> < 9007199254740992"
    using fit len assms(1,3,4) by simp
  have b2: "\<bar>8 + hb + (int o_i + int (length (bytes t)))\<bar> < 9007199254740992"
    using fit len assms(1,3,4) by simp
  show ?thesis
    unfolding layout_nth [OF assms(1,2)] t_def [symmetric] o_i_def [symmetric]
    by (simp add: decoded_entry_def entry_parts_header_entry slice_index_number [OF b1]
        slice_index_number [OF b2] sl)
qed

lemma decoded_layout_view:
  assumes "sizes s (refs (map_at s c)) < 2147483648" "int (length pre) = 8 + hb"
    and "hb \<le> 100 * 1024 * 1024"
  shows "map (decoded_entry (pre @ data_section s (refs (map_at s c))) hb)
             (layout s (refs (map_at s c)) 0)
           = tensor_view s c"
proof (rule nth_equalityI)
  show "length (map (decoded_entry (pre @ data_section s (refs (map_at s c))) hb)
             (layout s (refs (map_at s c)) 0)) = length (tensor_view s c)"
    by (simp add: length_layout tensor_view_def)
next
  fix i
  assume "i < length (map (decoded_entry (pre @ data_section s (refs (map_at s c))) hb)
             (layout s (refs (map_at s c)) 0))"
  then have i: "i < length (refs (map_at s c))" by (simp add: length_layout)
  show "map (decoded_entry (pre @ data_section s (refs (map_at s c))) hb)
             (layout s (refs (map_at s c)) 0) ! i = tensor_view s c ! i"
    using i decoded_entry_layout [OF assms(1) i assms(2,3)]
    by (simp add: length_layout tensor_view_def case_prod_beta)
qed

lemma plain_containerD:
  assumes "plain_container s c"
  shows "distinct (map fst (refs (map_at s c)))"
    and "distinct (map fst (metadata (map_at s c)))"
    and "\<And>k a. (k, a) \<in> set (refs (map_at s c)) \<Longrightarrow>
           k \<noteq> ''__metadata__'' \<and> k \<noteq> ''__proto__'' \<and> format (tensor_at s a) \<noteq> []
           \<and> bytes (tensor_at s a) \<noteq> []
           \<and> (\<forall>d \<in> set (shape (tensor_at s a)). typeof d = ''number'')"
    and "\<And>k v. (k, v) \<in> set (metadata (map_at s c)) \<Longrightarrow> k \<noteq> ''__proto__'' \<and> typeof v = ''string''"
    and "sizes s (refs (map_at s c)) < 2147483648"
  using assms unfolding plain_container_def by blast+

lemma no_proto_refs:
  "plain_container s c \<Longrightarrow> \<forall>(k, a) \<in> set (refs (map_at s c)). k \<noteq> ''__proto__''"
  using plain_containerD(3) by blast

lemma header_entries_eq:
  assumes "plain_container s c"
  shows "header_entries s c
           = assign_all (hdr (new_TensorSaver s c)) (layout s (refs (map_at s c)) 0)"
proof -
  have "\<forall>(k, a) \<in> set (refs (map_at s (tensorMap (new_TensorSaver s c)))). k \<noteq> ''__proto__''"
    using no_proto_refs [OF assms] by (simp add: fields_new_TensorSaver)
  from calcOffset_fields(1) [OF this] show ?thesis
    by (simp add: header_entries_def fields_new_TensorSaver)
qed

lemma keys_layout_set: "fst ` set (layout s T off) = fst ` set T"
  using keys_layout [of s T off] by (metis set_map)

lemma metadata_object:
  assumes "plain_container s c"
  shows "distinct (map fst (assign_all [] (metadata (map_at s c))))"
    and "map_of (assign_all [] (metadata (map_at s c))) = map_of (metadata (map_at s c))"
    and "\<And>k v. (k, v) \<in> set (assign_all [] (metadata (map_at s c))) \<Longrightarrow> typeof v = ''string''"
proof -
  let ?M = "metadata (map_at s c)"
  show d: "distinct (map fst (assign_all [] ?M))" by (rule distinct_assign_all) simp
  have np: "''__proto__'' \<notin> fst ` set ?M"
    using plain_containerD(4) [OF assms] by force
  show m: "map_of (assign_all [] ?M) = map_of ?M"
    using map_of_assign_all [OF np, of "[]"] map_of_rev_distinct [OF plain_containerD(2) [OF assms]]
    by simp
  fix k v assume "(k, v) \<in> set (assign_all [] ?M)"
  then have "map_of (assign_all [] ?M) k = Some v" using d by simp
  then have "(k, v) \<in> set ?M" unfolding m by (rule map_of_SomeD)
  then show "typeof v = ''string''" using plain_containerD(4) [OF assms] by blast
qed

lemma header_entries_facts:
  assumes "plain_container s c"
  shows "distinct (map fst (header_entries s c))"
    and "\<And>k v. (k, v) \<in> set (layout s (refs (map_at s c)) 0) \<Longrightarrow> (k, v) \<in> set (header_entries s c)"
    and "\<And>k v. (k, v) \<in> set (header_entries s c) \<Longrightarrow> k \<noteq> ''__metadata__'' \<Longrightarrow>
           (k, v) \<in> set (layout s (refs (map_at s c)) 0)"
    and "\<And>v. (''__metadata__'', v) \<in> set (header_entries s c) \<Longrightarrow>
           metadata (map_at s c) \<noteq> [] \<and> v = JObj (assign_all [] (metadata (map_at s c)))"
    and "metadata (map_at s c) \<noteq> [] \<Longrightarrow>
           (''__metadata__'', JObj (assign_all [] (metadata (map_at s c)))) \<in> set (header_entries s c)"
    and "metadata (map_at s c) = [] \<Longrightarrow> ''__metadata__'' \<notin> fst ` set (header_entries s c)"
proof -
  let ?T = "refs (map_at s c)"
  let ?L = "layout s ?T 0"
  let ?h0 = "hdr (new_TensorSaver s c)"
  let ?H = "header_entries s c"
  have H: "?H = assign_all ?h0 ?L" by (rule header_entries_eq [OF assms])
  have kL: "fst ` set ?L = fst ` set ?T" by (rule keys_layout_set)
  have dL: "distinct (map fst ?L)" using plain_containerD(1) [OF assms] by (simp add: keys_layout)
  have npL: "''__proto__'' \<notin> fst ` set ?L"
    unfolding kL using plain_containerD(3) [OF assms] by force
  have nmL: "''__metadata__'' \<notin> fst ` set ?L"
    unfolding kL using plain_containerD(3) [OF assms] by force
  have d0: "distinct (map fst ?h0)" by (simp add: hdr_new_TensorSaver)
  show dH: "distinct (map fst ?H)" unfolding H using d0 by (rule distinct_assign_all)
  have mH: "map_of ?H = map_of ?h0 ++ map_of ?L"
    unfolding H using map_of_assign_all [OF npL, of ?h0] map_of_rev_distinct [OF dL] by simp
  have mem: "\<And>k v. (k, v) \<in> set ?H \<longleftrightarrow> (map_of ?h0 ++ map_of ?L) k = Some v"
    using dH mH by (metis map_of_SomeD map_of_is_SomeI)
  have memL: "\<And>k v. (k, v) \<in> set ?L \<longleftrightarrow> map_of ?L k = Some v"
    using dL by (metis map_of_SomeD map_of_is_SomeI)
  have L_none: "map_of ?L ''__metadata__'' = None"
    using nmL by (simp add: map_of_eq_None_iff)
  {
    fix k v assume "(k, v) \<in> set ?L"
    then show "(k, v) \<in> set ?H" by (simp add: mem memL map_add_def)
  next
    fix k v assume a: "(k, v) \<in> set ?H" "k \<noteq> ''__metadata__''"
    have "map_of ?h0 k = None" using a(2) by (simp add: hdr_new_TensorSaver)
    then show "(k, v) \<in> set ?L" using a(1) by (simp add: mem memL map_add_def split: option.splits)
  next
    fix v assume "(''__metadata__'', v) \<in> set ?H"
    then have "map_of ?h0 ''__metadata__'' = Some v"
      by (simp add: mem map_add_def L_none)
    then show "metadata (map_at s c) \<noteq> [] \<and> v = JObj (assign_all [] (metadata (map_at s c)))"
      by (auto simp: hdr_new_TensorSaver split: if_splits)
  next
    assume "metadata (map_at s c) \<noteq> []"
    then show "(''__metadata__'', JObj (assign_all [] (metadata (map_at s c)))) \<in> set ?H"
      by (simp add: mem map_add_def L_none hdr_new_TensorSaver)
  next
    assume e: "metadata (map_at s c) = []"
    have "map_of ?H ''__metadata__'' = None"
      unfolding mH using e by (simp add: map_add_def L_none hdr_new_TensorSaver)
    then show "''__metadata__'' \<notin> fst ` set ?H" by (simp add: map_of_eq_None_iff)
  }
qed

lemma nth_key_inj:
  assumes "distinct (map fst T)" "i < length T" "j < length T" "fst (T ! i) = fst (T ! j)"
  shows "i = j"
  using assms by (metis distinct_conv_nth length_map nth_map)

lemma stageB_accepts_encoded:
  assumes pc: "plain_container s c"
  shows "sanityCheckTensorsParsed False (header_of s c)
           (int (length (data_section s (refs (map_at s c))))) = Inr ()"
proof -
  let ?T = "refs (map_at s c)"
  let ?L = "layout s ?T 0"
  let ?H = "header_entries s c"
  let ?D = "data_section s ?T"
  note sz = plain_containerD(5) [OF pc]
  note hf = header_entries_facts [OF pc]
  have tensor_at_index: "\<exists>i < length ?T. k = fst (?T ! i)
            \<and> v = header_entry (tensor_at s (snd (?T ! i))) (int (length (data_section s (take i ?T))))"
    if "(k, v) \<in> set ?H" "k \<noteq> ''__metadata__''" for k v
    using layout_entry [OF sz hf(3) [OF that]] .
  have props: "bytes (tensor_at s (snd (?T ! i))) \<noteq> []
           \<and> (\<forall>d \<in> set (shape (tensor_at s (snd (?T ! i)))). typeof d = ''number'')"
    if "i < length ?T" for i
  proof -
    have "(fst (?T ! i), snd (?T ! i)) \<in> set ?T" using that by simp
    from plain_containerD(3) [OF pc this] show ?thesis by simp
  qed
  have "parsed_loop False (int (length ?D)) ?H [] = Inr ()"
  proof (rule parsed_loop_ok [OF hf(1)])
    fix v assume "(''__metadata__'', v) \<in> set ?H"
    then have v: "v = JObj (assign_all [] (metadata (map_at s c)))" using hf(4) by blast
    show "checkMetadata False v = Inr ()"
      using metadata_object(3) [OF pc] by (auto simp: v checkMetadata_def)
  next
    fix k v assume m: "(k, v) \<in> set ?H" "k \<noteq> ''__metadata__''"
    from tensor_at_index [OF m] obtain i where i: "i < length ?T"
      and v: "v = header_entry (tensor_at s (snd (?T ! i))) (int (length (data_section s (take i ?T))))"
      by blast
    have "int (length (data_section s (take i ?T))) + int (length (bytes (tensor_at s (snd (?T ! i)))))
            \<le> int (length ?D)"
      using entry_within [OF i, of s] by linarith
    then show "\<exists>t off. v = header_entry t off \<and> (\<forall>d \<in> set (shape t). typeof d = ''number'')
              \<and> 0 \<le> off \<and> off + int (length (bytes t)) \<le> int (length ?D)"
      using v props [OF i] by (intro exI [of _ "tensor_at s (snd (?T ! i))"]
          exI [of _ "int (length (data_section s (take i ?T)))"]) simp
  next
    fix k v k' v'
    assume m: "(k, v) \<in> set ?H" "(k', v') \<in> set ?H" "k \<noteq> ''__metadata__''"
      "k' \<noteq> ''__metadata__''" "k \<noteq> k'"
    from tensor_at_index [OF m(1,3)] obtain i where i: "i < length ?T" "k = fst (?T ! i)"
      and v: "v = header_entry (tensor_at s (snd (?T ! i))) (int (length (data_section s (take i ?T))))"
      by blast
    from tensor_at_index [OF m(2,4)] obtain j where j: "j < length ?T" "k' = fst (?T ! j)"
      and v': "v' = header_entry (tensor_at s (snd (?T ! j))) (int (length (data_section s (take j ?T))))"
      by blast
    have ij: "i \<noteq> j" using m(5) i(2) j(2) by auto
    have ni: "0 < length (bytes (tensor_at s (snd (?T ! i))))" using props [OF i(1)] by simp
    have nj: "0 < length (bytes (tensor_at s (snd (?T ! j))))" using props [OF j(1)] by simp
    have apart:
      "int (length (data_section s (take i ?T))) + int (length (bytes (tensor_at s (snd (?T ! i)))))
         \<le> int (length (data_section s (take j ?T)))
       \<or> int (length (data_section s (take j ?T))) + int (length (bytes (tensor_at s (snd (?T ! j)))))
         \<le> int (length (data_section s (take i ?T)))"
    proof (cases "i < j")
      case True
      from entry_before [OF True j(1), of s] show ?thesis by linarith
    next
      case False
      then have "j < i" using ij by simp
      from entry_before [OF this i(1), of s] show ?thesis by linarith
    qed
    show "checkTensorOverlap False (fst (entry_range v')) (snd (entry_range v')) (entry_range v) = Inr ()"
      unfolding v v' entry_range_header_entry fst_conv snd_conv
      using ni nj apart by (intro overlap_apart) auto
  next
    fix x y :: json and k :: string and v :: json
    assume "(x, y) \<in> set []"
    then show "checkTensorOverlap False x y (entry_range v) = Inr ()" by simp
  qed
  then show ?thesis by (simp add: sanityCheckTensorsParsed_def header_of_def)
qed

lemma archive_shape:
  assumes pc: "plain_container s c" and pr: "platform_roundtrip stringify parse (header_of s c)"
  defines "htext \<equiv> stringify (header_of s c)"
  defines "hb \<equiv> align8 (int (length htext))"
  defines "pad \<equiv> replicate (nat (hb - int (length htext))) (32::byte)"
  shows "archive stringify s c = length_field hb @ (htext @ pad) @ data_section s (refs (map_at s c))"
    and "int (length (htext @ pad)) = hb"
    and "0 \<le> hb" "hb \<le> 100 * 1024 * 1024"
    and "htext \<noteq> []" "hd htext = 123"
    and "parse (htext @ pad) = Some (header_of s c)"
    and "int (length (length_field hb @ htext @ pad)) = 8 + hb"
proof -
  have pr': "htext \<noteq> []" "hd htext = 123" "int (length htext) \<le> 100 * 1024 * 1024"
    "parse (htext @ pad) = Some (header_of s c)"
    using pr unfolding platform_roundtrip_def Let_def htext_def pad_def hb_def by blast+
  have hbf: "hb \<le> 100 * 1024 * 1024" "int (length htext) \<le> hb" "hb - int (length htext) \<le> 7"
    unfolding hb_def using align8_le_ceiling [of "int (length htext)"] pr'(3) by simp_all
  show "archive stringify s c = length_field hb @ (htext @ pad) @ data_section s (refs (map_at s c))"
    by (simp add: archive_def Let_def htext_def hb_def pad_def)
  show len: "int (length (htext @ pad)) = hb" using hbf by (simp add: pad_def)
  show "0 \<le> hb" using hbf by linarith
  show "hb \<le> 100 * 1024 * 1024" by (rule hbf(1))
  show "htext \<noteq> []" "hd htext = 123" "parse (htext @ pad) = Some (header_of s c)"
    by (rule pr')+
  show "int (length (length_field hb @ htext @ pad)) = 8 + hb"
    using len by (simp add: length_length_field)
qed

lemma decode_archive:
  assumes pc: "plain_container s c" and pr: "platform_roundtrip stringify parse (header_of s c)"
  shows "\<exists>s'. parseSafeTensors parse (archive stringify s c) False s = (Inr (next_map s), s')
           \<and> tensor_view s' (next_map s)
               = decoded_view (archive stringify s c)
                   (align8 (int (length (stringify (header_of s c))))) (header_entries s c)
           \<and> metadata (map_at s' (next_map s)) = final_metadata (header_entries s c) []"
proof -
  define htext where "htext = stringify (header_of s c)"
  define hb where "hb = align8 (int (length htext))"
  define pad where "pad = replicate (nat (hb - int (length htext))) (32::byte)"
  define D where "D = data_section s (refs (map_at s c))"
  define b where "b = archive stringify s c"
  define r where "r = next_map s"
  define s1 where "s1 = snd (new_TensorMap s)"
  let ?H = "header_entries s c"
  note sh = archive_shape [OF pc pr, folded htext_def, folded hb_def, folded pad_def, folded D_def]
  have b_eq: "b = length_field hb @ (htext @ pad) @ D" unfolding b_def by (rule sh(1))
  have b_eq': "b = length_field hb @ htext @ (pad @ D)" unfolding b_eq by simp
  have len_b: "int (length b) = 8 + hb + int (length D)"
    unfolding b_eq using sh(2) by (simp add: length_length_field)
  have fit: "8 + hb \<le> int (length (length_field hb @ htext @ (pad @ D)))"
    using len_b unfolding b_eq' by simp
  have size: "unsafeGetHeaderSize b = hb"
    unfolding b_eq' by (rule stageA_archive(1) [OF sh(3) sh(4) sh(5) sh(6) fit])
  have stageA: "sanityCheckTensorsHeader False b (int (length b)) = Inr hb"
    unfolding b_eq' by (rule stageA_archive(2) [OF sh(3) sh(4) sh(5) sh(6) fit])
  have slice: "js_slice b 8 (8 + hb) = htext @ pad"
    using js_slice_mid [of "length_field hb" "htext @ pad" D] sh(2)
    by (simp add: b_eq length_length_field)
  have parsed: "parse (js_slice b 8 (8 + hb)) = Some (header_of s c)"
    unfolding slice by (rule sh(7))
  have chunk: "int (length b) - 8 - hb = int (length D)" using len_b by simp
  have stageB: "sanityCheckTensorsParsed False (header_of s c) (int (length b) - 8 - hb) = Inr ()"
    unfolding chunk D_def by (rule stageB_accepts_encoded [OF pc])
  have entries: "object_entries (header_of s c) = Inr ?H" by (simp add: header_of_def)
  have new: "new_TensorMap s = (r, s1)" by (simp add: new_TensorMap_def r_def s1_def)
  have empty: "refs (map_at s1 r) = []" "metadata (map_at s1 r) = []"
    by (simp_all add: s1_def r_def new_TensorMap_def)
  note hf = header_entries_facts [OF pc]
  have "\<exists>s'. populate b hb r ?H s1 = (Inr (), s')"
  proof (rule populate_succeeds [OF hf(1)])
    fix v assume "(''__metadata__'', v) \<in> set ?H"
    then have "v = JObj (assign_all [] (metadata (map_at s c)))" using hf(4) by blast
    then show "\<exists>kvs. object_entries v = Inr kvs" by simp
  next
    fix k v assume m: "(k, v) \<in> set ?H" "k \<noteq> ''__metadata__''"
    from layout_entry [OF plain_containerD(5) [OF pc] hf(3) [OF m]]
    obtain i where i: "i < length (refs (map_at s c))"
      and v: "v = header_entry (tensor_at s (snd (refs (map_at s c) ! i)))
                    (int (length (data_section s (take i (refs (map_at s c))))))"
      by blast
    have "(fst (refs (map_at s c) ! i), snd (refs (map_at s c) ! i)) \<in> set (refs (map_at s c))"
      using i by simp
    from plain_containerD(3) [OF pc this]
    have fmt: "format (tensor_at s (snd (refs (map_at s c) ! i))) \<noteq> []" by simp
    define o_i where "o_i = length (data_section s (take i (refs (map_at s c))))"
    define n where "n = length (bytes (tensor_at s (snd (refs (map_at s c) ! i))))"
    have "o_i + n \<le> length (data_section s (refs (map_at s c)))"
      unfolding o_i_def n_def by (rule entry_within [OF i])
    moreover have "int (length (data_section s (refs (map_at s c)))) < 2147483648"
      using length_data_section_le [of s "refs (map_at s c)"] plain_containerD(5) [OF pc] by simp
    ultimately have b1: "\<bar>8 + hb + int o_i\<bar> < 9007199254740992"
      and b2: "\<bar>8 + hb + (int o_i + int n)\<bar> < 9007199254740992"
      using sh(3,4) by simp_all
    show "\<exists>dtype shp a ba i j. entry_parts v = Some (dtype, shp, a, ba) \<and> dtype \<noteq> []
              \<and> slice_index (length b) (8 + hb) a = Inr i
              \<and> slice_index (length b) (8 + hb) ba = Inr j"
      using fmt
      by (simp add: v entry_parts_header_entry o_i_def [symmetric] n_def [symmetric]
          slice_index_number [OF b1] slice_index_number [OF b2])
  next
    show "fst ` set (refs (map_at s1 r)) \<inter> fst ` set ?H = {}" by (simp add: empty)
  qed
  then obtain s' where pop: "populate b hb r ?H s1 = (Inr (), s')" by blast
  have "\<forall>a \<in> snd ` set (refs (map_at s1 r)). a < next_tensor s1" by (simp add: empty)
  from populate_view [OF pop this]
  have view: "tensor_view s' r = decoded_view b hb ?H"
    and meta: "metadata (map_at s' r) = final_metadata ?H []"
    by (simp_all add: empty tensor_view_def)
  have "parseSafeTensors parse b False s = (Inr r, s')"
    unfolding parseSafeTensors_def
    by (simp add: stageA size Let_def new parsed stageB entries pop)
  then show ?thesis
    using view meta unfolding b_def r_def hb_def htext_def by blast
qed

lemma tensor_entries_encoded:
  assumes pc: "plain_container s c"
  shows "set (tensor_entries (header_entries s c)) = set (layout s (refs (map_at s c)) 0)"
proof -
  note hf = header_entries_facts [OF pc]
  have nm: "k \<noteq> ''__metadata__''" if "(k, v) \<in> set (layout s (refs (map_at s c)) 0)" for k v
  proof -
    have "k \<in> fst ` set (layout s (refs (map_at s c)) 0)" using that by force
    then have "k \<in> fst ` set (refs (map_at s c))" by (simp add: keys_layout_set)
    then show ?thesis using plain_containerD(3) [OF pc] by force
  qed
  show ?thesis
  proof (intro set_eqI iffI)
    fix x assume "x \<in> set (tensor_entries (header_entries s c))"
    then have "(fst x, snd x) \<in> set (header_entries s c)" "fst x \<noteq> ''__metadata__''"
      by (auto simp: tensor_entries_def)
    from hf(3) [OF this] show "x \<in> set (layout s (refs (map_at s c)) 0)" by simp
  next
    fix x assume "x \<in> set (layout s (refs (map_at s c)) 0)"
    then have m: "(fst x, snd x) \<in> set (layout s (refs (map_at s c)) 0)" by simp
    from hf(2) [OF m] nm [OF m] show "x \<in> set (tensor_entries (header_entries s c))"
      by (auto simp: tensor_entries_def case_prod_beta)
  qed
qed

lemma decoded_view_encoded:
  assumes pc: "plain_container s c" and pre: "int (length pre) = 8 + hb"
    and hb: "hb \<le> 100 * 1024 * 1024"
  shows "map_of (decoded_view (pre @ data_section s (refs (map_at s c))) hb (header_entries s c))
           = map_of (tensor_view s c)"
proof -
  let ?b = "pre @ data_section s (refs (map_at s c))"
  let ?H = "header_entries s c"
  have d1: "distinct (map fst (decoded_view ?b hb ?H))"
    using header_entries_facts(1) [OF pc]
    by (simp add: keys_decoded_view tensor_entries_def distinct_map_filter)
  have d2: "distinct (map fst (tensor_view s c))"
    using plain_containerD(1) [OF pc] by (simp add: tensor_view_def o_def case_prod_beta)
  have "set (decoded_view ?b hb ?H) = decoded_entry ?b hb ` set (layout s (refs (map_at s c)) 0)"
    by (simp add: decoded_view_def tensor_entries_encoded [OF pc])
  also have "\<dots> = set (map (decoded_entry ?b hb) (layout s (refs (map_at s c)) 0))" by simp
  also have "\<dots> = set (tensor_view s c)"
    by (simp only: decoded_layout_view [OF plain_containerD(5) [OF pc] pre hb])
  finally show ?thesis using d1 d2 by (simp add: map_of_inject_set)
qed

lemma final_metadata_encoded:
  assumes pc: "plain_container s c"
  shows "final_metadata (header_entries s c) [] = assign_all [] (metadata (map_at s c))"
proof (cases "metadata (map_at s c) = []")
  case True
  then show ?thesis
    using header_entries_facts(6) [OF pc] by (simp add: final_metadata_none assign_all_def)
next
  case False
  let ?md = "assign_all [] (metadata (map_at s c))"
  have "final_metadata (header_entries s c) [] = Map_of_entries ?md"
    using header_entries_facts(1) [OF pc] header_entries_facts(5) [OF pc False]
    by (rule final_metadata_one) simp
  then show ?thesis
    using metadata_object(1) [OF pc] by (simp add: Map_of_entries_distinct)
qed

lemma roundtrip_views:
  assumes pc: "plain_container s c" and pr: "platform_roundtrip stringify parse (header_of s c)"
  shows "\<exists>s'. saveSafeTensors stringify c s = Inr (archive stringify s c)
           \<and> parseSafeTensors parse (archive stringify s c) False s = (Inr (next_map s), s')
           \<and> map_of (tensor_view s' (next_map s)) = map_of (tensor_view s c)
           \<and> map_of (metadata (map_at s' (next_map s))) = map_of (metadata (map_at s c))"
proof -
  note sh = archive_shape [OF pc pr]
  have len: "int (length (stringify (header_of s c))) \<le> 100 * 1024 * 1024"
    using pr unfolding platform_roundtrip_def Let_def by blast
  have enc: "saveSafeTensors stringify c s = Inr (archive stringify s c)"
    using plain_containerD(1) [OF pc] no_proto_refs [OF pc] plain_containerD(5) [OF pc] len
    by (rule saveSafeTensors_archive)
  from decode_archive [OF pc pr] obtain s' where
    dec: "parseSafeTensors parse (archive stringify s c) False s = (Inr (next_map s), s')"
    and view: "tensor_view s' (next_map s)
               = decoded_view (archive stringify s c)
                   (align8 (int (length (stringify (header_of s c))))) (header_entries s c)"
    and meta: "metadata (map_at s' (next_map s)) = final_metadata (header_entries s c) []"
    by blast
  have v: "map_of (tensor_view s' (next_map s)) = map_of (tensor_view s c)"
    unfolding view sh(1) append_assoc [symmetric]
    by (rule decoded_view_encoded [OF pc _ sh(4)]) (use sh(8) in simp)
  have m: "map_of (metadata (map_at s' (next_map s))) = map_of (metadata (map_at s c))"
    unfolding meta final_metadata_encoded [OF pc] by (rule metadata_object(2) [OF pc])
  show ?thesis using enc dec v m by blast
qed

subsection \<open>Encoding the decoded container again\<close>

lemma view_cong:
  assumes "map (\<lambda>(k, a). (k, format (tensor_at s a), shape (tensor_at s a), bytes (tensor_at s a))) T
         = map (\<lambda>(k, a). (k, format (tensor_at s' a), shape (tensor_at s' a), bytes (tensor_at s' a))) T'"
  shows "layout s T off = layout s' T' off"
    and "data_section s T = data_section s' T'"
    and "sizes s T = sizes s' T'"
    and "map fst T = map fst T'"
  using assms
proof (induction T arbitrary: T' off)
  case Nil
  { case 1 then show ?case by simp }
  { case 2 then show ?case by simp }
  { case 3 then show ?case by (simp add: sizes_def) }
  { case 4 then show ?case by simp }
next
  case (Cons x T)
  obtain k a where x: "x = (k, a)" by (cases x)
  {
    case 1
    then obtain k' a' R where T': "T' = (k', a') # R" by (cases T') auto
    from 1 have h: "k = k'" "format (tensor_at s a) = format (tensor_at s' a')"
      "shape (tensor_at s a) = shape (tensor_at s' a')" "bytes (tensor_at s a) = bytes (tensor_at s' a')"
      and r: "map (\<lambda>(k, a). (k, format (tensor_at s a), shape (tensor_at s a), bytes (tensor_at s a))) T
         = map (\<lambda>(k, a). (k, format (tensor_at s' a), shape (tensor_at s' a), bytes (tensor_at s' a))) R"
      by (simp_all add: x T')
    show ?case using Cons.IH(1) [OF r] h by (simp add: x T' header_entry_def)
  }
  {
    case 2
    then obtain k' a' R where T': "T' = (k', a') # R" by (cases T') auto
    from 2 have h: "bytes (tensor_at s a) = bytes (tensor_at s' a')"
      and r: "map (\<lambda>(k, a). (k, format (tensor_at s a), shape (tensor_at s a), bytes (tensor_at s a))) T
         = map (\<lambda>(k, a). (k, format (tensor_at s' a), shape (tensor_at s' a), bytes (tensor_at s' a))) R"
      by (simp_all add: x T')
    show ?case using Cons.IH(2) [OF r] h by (simp add: x T')
  }
  {
    case 3
    then obtain k' a' R where T': "T' = (k', a') # R" by (cases T') auto
    from 3 have h: "bytes (tensor_at s a) = bytes (tensor_at s' a')"
      and r: "map (\<lambda>(k, a). (k, format (tensor_at s a), shape (tensor_at s a), bytes (tensor_at s a))) T
         = map (\<lambda>(k, a). (k, format (tensor_at s' a), shape (tensor_at s' a), bytes (tensor_at s' a))) R"
      by (simp_all add: x T')
    show ?case using Cons.IH(3) [OF r] h by (simp add: x T' sizes_simps)
  }
  {
    case 4
    then obtain k' a' R where T': "T' = (k', a') # R" by (cases T') auto
    from 4 have h: "k = k'"
      and r: "map (\<lambda>(k, a). (k, format (tensor_at s a), shape (tensor_at s a), bytes (tensor_at s a))) T
         = map (\<lambda>(k, a). (k, format (tensor_at s' a), shape (tensor_at s' a), bytes (tensor_at s' a))) R"
      by (simp_all add: x T')
    show ?case using Cons.IH(4) [OF r] h by (simp add: x T')
  }
qed

lemma tensor_view_mem:
  "(k, f, sh, b) \<in> set (tensor_view s c) \<longleftrightarrow>
     (\<exists>a. (k, a) \<in> set (refs (map_at s c)) \<and> f = format (tensor_at s a)
          \<and> sh = shape (tensor_at s a) \<and> b = bytes (tensor_at s a))"
  by (auto simp: tensor_view_def)

lemma plain_container_cong:
  assumes pc: "plain_container s c"
    and v: "tensor_view s' c' = tensor_view s c"
    and m: "metadata (map_at s' c') = metadata (map_at s c)"
  shows "plain_container s' c'"
proof -
  note vc = view_cong [OF v [unfolded tensor_view_def]]
  have props: "k \<noteq> ''__metadata__'' \<and> k \<noteq> ''__proto__'' \<and> format (tensor_at s' a) \<noteq> []
           \<and> bytes (tensor_at s' a) \<noteq> []
           \<and> (\<forall>d \<in> set (shape (tensor_at s' a)). typeof d = ''number'')"
    if "(k, a) \<in> set (refs (map_at s' c'))" for k a
  proof -
    have "(k, format (tensor_at s' a), shape (tensor_at s' a), bytes (tensor_at s' a))
            \<in> set (tensor_view s' c')"
      using that by (auto simp: tensor_view_mem)
    then obtain a0 where "(k, a0) \<in> set (refs (map_at s c))"
      "format (tensor_at s' a) = format (tensor_at s a0)"
      "shape (tensor_at s' a) = shape (tensor_at s a0)"
      "bytes (tensor_at s' a) = bytes (tensor_at s a0)"
      unfolding v tensor_view_mem by blast
    with plain_containerD(3) [OF pc this(1)] show ?thesis by simp
  qed
  show ?thesis
    unfolding plain_container_def m vc(3) vc(4)
    using plain_containerD(1,2,5) [OF pc] plain_containerD(4) [OF pc] props
    by (auto simp: vc(4))
qed

lemma header_entries_cong:
  assumes pc: "plain_container s c"
    and v: "tensor_view s' c' = tensor_view s c"
    and m: "metadata (map_at s' c') = metadata (map_at s c)"
  shows "header_entries s' c' = header_entries s c"
    and "data_section s' (refs (map_at s' c')) = data_section s (refs (map_at s c))"
proof -
  note vc = view_cong [OF v [unfolded tensor_view_def]]
  have pc': "plain_container s' c'" by (rule plain_container_cong [OF pc v m])
  show "header_entries s' c' = header_entries s c"
    unfolding header_entries_eq [OF pc] header_entries_eq [OF pc'] hdr_new_TensorSaver m vc(1) ..
  show "data_section s' (refs (map_at s' c')) = data_section s (refs (map_at s c))"
    by (rule vc(2))
qed

lemma no_index_structure:
  assumes pc: "plain_container s c" and nik: "no_index_keys s c"
  shows "header_entries s c = hdr (new_TensorSaver s c) @ layout s (refs (map_at s c)) 0"
    and "tensor_entries (header_entries s c) = layout s (refs (map_at s c)) 0"
    and "assign_all [] (metadata (map_at s c)) = metadata (map_at s c)"
proof -
  let ?T = "refs (map_at s c)"
  let ?L = "layout s ?T 0"
  let ?h0 = "hdr (new_TensorSaver s c)"
  have kL: "fst ` set ?L = fst ` set ?T" by (rule keys_layout_set)
  have tk: "k \<noteq> ''__metadata__'' \<and> k \<noteq> ''__proto__'' \<and> \<not> is_array_index k"
    if "k \<in> fst ` set ?T" for k
    using that plain_containerD(3) [OF pc] nik unfolding no_index_keys_def by fastforce
  have dL: "distinct (map fst ?L)" using plain_containerD(1) [OF pc] by (simp add: keys_layout)
  have k0: "fst ` set ?h0 \<subseteq> {''__metadata__''}" by (simp add: hdr_new_TensorSaver)
  have H: "assign_all ?h0 ?L = ?h0 @ ?L"
  proof (rule assign_all_append [OF _ _ dL])
    show "''__proto__'' \<notin> fst ` set ?L" unfolding kL using tk by blast
    show "\<forall>k \<in> fst ` set ?L. \<not> is_array_index k" unfolding kL using tk by blast
    show "fst ` set ?h0 \<inter> fst ` set ?L = {}" unfolding kL using tk k0 by blast
  qed
  show eq: "header_entries s c = ?h0 @ ?L" unfolding header_entries_eq [OF pc] by (rule H)
  have f0: "filter (\<lambda>(k, v). k \<noteq> ''__metadata__'') ?h0 = []"
    by (simp add: hdr_new_TensorSaver)
  have fL: "filter (\<lambda>(k, v). k \<noteq> ''__metadata__'') ?L = ?L"
  proof -
    have "fst x \<noteq> ''__metadata__''" if "x \<in> set ?L" for x
    proof -
      have "fst x \<in> fst ` set ?L" using that by simp
      then show ?thesis unfolding kL using tk by blast
    qed
    then show ?thesis by (intro filter_True) (simp add: case_prod_beta)
  qed
  show "tensor_entries (header_entries s c) = ?L"
    unfolding eq tensor_entries_def by (simp add: f0 fL)
  let ?M = "metadata (map_at s c)"
  have "assign_all [] ?M = [] @ ?M"
  proof (rule assign_all_append [OF _ _ plain_containerD(2) [OF pc]])
    show "''__proto__'' \<notin> fst ` set ?M" using plain_containerD(4) [OF pc] by force
    show "\<forall>k \<in> fst ` set ?M. \<not> is_array_index k" using nik unfolding no_index_keys_def by blast
    show "fst ` set [] \<inter> fst ` set ?M = {}" by simp
  qed
  then show "assign_all [] ?M = ?M" by simp
qed

lemma reencode_archive:
  assumes pc: "plain_container s c" and nik: "no_index_keys s c"
    and pr: "platform_roundtrip stringify parse (header_of s c)"
  shows "\<exists>s'. saveSafeTensors stringify c s = Inr (archive stringify s c)
           \<and> parseSafeTensors parse (archive stringify s c) False s = (Inr (next_map s), s')
           \<and> saveSafeTensors stringify (next_map s) s' = Inr (archive stringify s c)"
proof -
  note sh = archive_shape [OF pc pr]
  note ni = no_index_structure [OF pc nik]
  have len: "int (length (stringify (header_of s c))) \<le> 100 * 1024 * 1024"
    using pr unfolding platform_roundtrip_def Let_def by blast
  have enc: "saveSafeTensors stringify c s = Inr (archive stringify s c)"
    using plain_containerD(1) [OF pc] no_proto_refs [OF pc] plain_containerD(5) [OF pc] len
    by (rule saveSafeTensors_archive)
  from decode_archive [OF pc pr] obtain s' where
    dec: "parseSafeTensors parse (archive stringify s c) False s = (Inr (next_map s), s')"
    and view: "tensor_view s' (next_map s)
               = decoded_view (archive stringify s c)
                   (align8 (int (length (stringify (header_of s c))))) (header_entries s c)"
    and meta: "metadata (map_at s' (next_map s)) = final_metadata (header_entries s c) []"
    by blast
  have v: "tensor_view s' (next_map s) = tensor_view s c"
    unfolding view decoded_view_def ni(2) sh(1) append_assoc [symmetric]
    by (rule decoded_layout_view [OF plain_containerD(5) [OF pc] _ sh(4)]) (use sh(8) in simp)
  have m: "metadata (map_at s' (next_map s)) = metadata (map_at s c)"
    unfolding meta final_metadata_encoded [OF pc] by (rule ni(3))
  have pc': "plain_container s' (next_map s)" by (rule plain_container_cong [OF pc v m])
  note hc = header_entries_cong [OF pc v m]
  have ho: "header_of s' (next_map s) = header_of s c" by (simp add: header_of_def hc(1))
  have ar: "archive stringify s' (next_map s) = archive stringify s c"
    by (simp add: archive_def ho hc(2))
  have "saveSafeTensors stringify (next_map s) s' = Inr (archive stringify s' (next_map s))"
    using plain_containerD(1) [OF pc'] no_proto_refs [OF pc'] plain_containerD(5) [OF pc']
      len [folded ho]
    by (rule saveSafeTensors_archive)
  then show ?thesis using enc dec ar by auto
qed

subsection \<open>The checks under leniency\<close>

lemma object_entries_not_ignorable: "object_entries v \<noteq> Inl (IgnorableError m)"
  by (cases v) simp_all

lemma stageA_lenient: "sanityCheckTensorsHeader True data filesize \<noteq> Inl (IgnorableError m)"
  by (simp add: sanityCheckTensorsHeader_def Let_def)

lemma checkMetadata_lenient: "checkMetadata True v \<noteq> Inl (IgnorableError m)"
  using object_entries_not_ignorable [of v m]
  by (cases "object_entries v") (simp_all add: checkMetadata_def)

lemma ToString_not_ignorable:
  "ToString v \<noteq> Inl (IgnorableError m)" "join_elements xs \<noteq> Inl (IgnorableError m)"
proof (induction v and xs rule: ToString_join_elements.induct)
  case (8 x xs)
  have hd: "(if x = JNull then Inr [] else ToString x) \<noteq> Inl (IgnorableError m)"
    using "8.IH"(1) by simp
  show ?case
  proof (cases "if x = JNull then Inr [] else ToString x")
    case (Inl e)
    then show ?thesis using hd by auto
  next
    case (Inr str)
    then show ?thesis using "8.IH"(2) [OF Inr] by (auto split: sum.splits)
  qed
qed simp_all

lemma ToPrimitive_not_ignorable: "ToPrimitive v \<noteq> Inl (IgnorableError m)"
  using ToString_not_ignorable(1) [of v m]
  by (cases v) (auto simp: ToPrimitive_def split: sum.splits)

lemma IsLessThan_not_ignorable: "IsLessThan a b \<noteq> Inl (IgnorableError m)"
  using ToPrimitive_not_ignorable [of a m] ToPrimitive_not_ignorable [of b m]
  by (auto simp: IsLessThan_def split: sum.splits)

lemma compare_not_ignorable:
  "js_lt a b \<noteq> Inl (IgnorableError m)" "js_gt a b \<noteq> Inl (IgnorableError m)"
  "js_le a b \<noteq> Inl (IgnorableError m)" "js_ge a b \<noteq> Inl (IgnorableError m)"
  using IsLessThan_not_ignorable [of a b m] IsLessThan_not_ignorable [of b a m]
  by (auto simp: js_lt_def js_gt_def js_le_def js_ge_def split: sum.splits)

lemma and_also_not_ignorable:
  "x \<noteq> Inl (IgnorableError m) \<Longrightarrow> y \<noteq> Inl (IgnorableError m)
     \<Longrightarrow> and_also x y \<noteq> Inl (IgnorableError m)"
  by (auto simp: and_also_def split: sum.splits)

lemma pairInRange_not_ignorable: "pairInRange v chunk \<noteq> Inl (IgnorableError m)"
  unfolding pairInRange_def by (intro and_also_not_ignorable compare_not_ignorable)

lemma slice_index_not_ignorable: "slice_index len base v \<noteq> Inl (IgnorableError m)"
  using ToPrimitive_not_ignorable [of v m]
  by (auto simp: slice_index_def index_sum_def split: sum.splits json.splits)

lemma checkTensorOverlap_lenient: "checkTensorOverlap True x y v \<noteq> Inl (IgnorableError m)"
proof -
  have "and_also (js_gt (snd v) x) (js_le (snd v) y) \<noteq> Inl (IgnorableError m)"
    "and_also (js_ge (fst v) x) (js_lt (fst v) y) \<noteq> Inl (IgnorableError m)"
    by (intro and_also_not_ignorable compare_not_ignorable)+
  then show ?thesis
    by (auto simp: checkTensorOverlap_def Let_def split: sum.splits option.splits)
qed

lemma overlap_loop_lenient: "overlap_loop True cov v \<noteq> Inl (IgnorableError m)"
proof (induction cov)
  case Nil
  show ?case by simp
next
  case (Cons p cov)
  obtain x y where p: "p = (x, y)" by (cases p)
  show ?case
    using Cons checkTensorOverlap_lenient [of x y v m] by (auto simp: p split: sum.splits)
qed

lemma checkDataOffsetBasics_lenient:
  "checkDataOffsetBasics True chunk v \<noteq> Inl (IgnorableError m)"
  using pairInRange_not_ignorable [of v chunk m]
  by (auto simp: checkDataOffsetBasics_def split: sum.splits)

lemma checkDataOffsets_lenient: "checkDataOffsets True chunk cov obj \<noteq> Inl (IgnorableError m)"
proof (cases "\<exists>a b. obj = JArr [a, b]")
  case True
  then obtain a b where obj: "obj = JArr [a, b]" by blast
  show ?thesis
    using checkDataOffsetBasics_lenient [of chunk "(a, b)" m] overlap_loop_lenient [of cov "(a, b)" m]
    by (auto simp: obj checkDataOffsets_def split: sum.splits)
next
  case False
  then show ?thesis
    by (auto simp: checkDataOffsets_def split: json.splits list.splits)
qed

lemma checkTensorShape_lenient: "checkTensorShape True v \<noteq> Inl (IgnorableError m)"
  by (simp add: checkTensorShape_def split: json.splits)

lemma check_attr_lenient: "check_attr True chunk key v t \<noteq> Inl (IgnorableError m)"
  using checkTensorShape_lenient [of v m] checkDataOffsets_lenient [of chunk "covered t" v m]
  by (auto simp: check_attr_def split: sum.splits)

lemma attr_loop_lenient: "attr_loop True chunk kvs t \<noteq> Inl (IgnorableError m)"
proof (induction kvs arbitrary: t)
  case Nil
  show ?case by simp
next
  case (Cons kv kvs)
  obtain key v where kv: "kv = (key, v)" by (cases kv)
  show ?case
    using Cons.IH check_attr_lenient [of chunk key v t m]
    by (auto simp: kv split: sum.splits)
qed

lemma checkTensorValue_lenient: "checkTensorValue True chunk cov v \<noteq> Inl (IgnorableError m)"
  using object_entries_not_ignorable [of v m] attr_loop_lenient [of chunk _ "new_tac cov" m]
  by (auto simp: checkTensorValue_def assertAttributePresence_def Let_def split: sum.splits)

lemma parsed_loop_lenient: "parsed_loop True chunk kvs cov \<noteq> Inl (IgnorableError m)"
proof (induction kvs arbitrary: cov)
  case Nil
  show ?case by simp
next
  case (Cons kv kvs)
  obtain key v where kv: "kv = (key, v)" by (cases kv)
  show ?case
    using Cons.IH checkMetadata_lenient [of v m] checkTensorValue_lenient [of chunk cov v m]
    by (auto simp: kv split: sum.splits)
qed

lemma stageB_lenient: "sanityCheckTensorsParsed True j chunk \<noteq> Inl (IgnorableError m)"
  using object_entries_not_ignorable [of j m] parsed_loop_lenient [of chunk _ "[]" m]
  by (auto simp: sanityCheckTensorsParsed_def Let_def split: sum.splits)


lemma addTensor_raw_not_ignorable: "fst (addTensor_raw r k d f sh s) \<noteq> Inl (IgnorableError m)"
  by (simp add: addTensor_raw_def private_setTensor_def new_TensorRef_def Let_def)

lemma populate_not_ignorable: "fst (populate data h r kvs s) \<noteq> Inl (IgnorableError m)"
proof (induction kvs arbitrary: s)
  case Nil
  show ?case by simp
next
  case (Cons kv kvs)
  obtain k v where kv: "kv = (k, v)" by (cases kv)
  show ?case
  proof (cases "k = ''__metadata__''")
    case True
    show ?thesis
      using Cons.IH object_entries_not_ignorable [of v m]
      by (cases "object_entries v") (simp_all add: kv True)
  next
    case False
    show ?thesis
    proof (cases "entry_parts v")
      case None
      then show ?thesis by (simp add: kv False)
    next
      case (Some q)
      obtain dtype shp a b where q: "q = (dtype, shp, a, b)" by (cases q)
      show ?thesis
      proof (cases "slice_index (length data) (8 + h) a")
        case (Inl e)
        then show ?thesis
          using slice_index_not_ignorable [of "length data" "8 + h" a m]
          by (simp add: kv False Some q)
      next
        case si: (Inr i)
        show ?thesis
        proof (cases "slice_index (length data) (8 + h) b")
          case (Inl e)
          then show ?thesis
            using slice_index_not_ignorable [of "length data" "8 + h" b m]
            by (simp add: kv False Some q si)
        next
          case sj: (Inr j)
          define d where "d = js_slice data i j"
          obtain res s1 where add: "addTensor_raw r k d dtype shp s = (res, s1)"
            by (cases "addTensor_raw r k d dtype shp s")
          have "res \<noteq> Inl (IgnorableError m)"
            using addTensor_raw_not_ignorable [of r k d dtype shp s m] by (simp add: add)
          then show ?thesis
            using Cons.IH [of s1]
            by (cases res) (simp_all add: kv False Some q si sj d_def [symmetric] add)
        qed
      qed
    qed
  qed
qed

lemma parse_lenient_not_ignorable:
  "fst (parseSafeTensors parse data True s) \<noteq> Inl (IgnorableError m)"
proof -
  define hs where "hs = unsafeGetHeaderSize data"
  define s1 where "s1 = snd (new_TensorMap s)"
  have new: "new_TensorMap s = (next_map s, s1)" by (simp add: new_TensorMap_def s1_def)
  show ?thesis
  proof (cases "sanityCheckTensorsHeader True data (int (length data))")
    case (Inl e)
    then show ?thesis
      using stageA_lenient [of data "int (length data)" m] by (simp add: parseSafeTensors_def)
  next
    case A: (Inr val)
    show ?thesis
    proof (cases "parse (js_slice data 8 (8 + hs))")
      case None
      then show ?thesis
        by (simp add: parseSafeTensors_def A Let_def hs_def [symmetric] new)
    next
      case P: (Some j)
      show ?thesis
      proof (cases "sanityCheckTensorsParsed True j (int (length data) - 8 - hs)")
        case (Inl e)
        then show ?thesis
          using stageB_lenient [of j "int (length data) - 8 - hs" m]
          by (simp add: parseSafeTensors_def A Let_def hs_def [symmetric] new P)
      next
        case B: (Inr u)
        show ?thesis
        proof (cases "object_entries j")
          case (Inl e)
          then show ?thesis
            using object_entries_not_ignorable [of j m]
            by (simp add: parseSafeTensors_def A Let_def hs_def [symmetric] new P B)
        next
          case E: (Inr kvs)
          obtain res s2 where pop: "populate data hs (next_map s) kvs s1 = (res, s2)"
            by (cases "populate data hs (next_map s) kvs s1")
          have "res \<noteq> Inl (IgnorableError m)"
            using populate_not_ignorable [of data hs "next_map s" kvs s1 m] by (simp add: pop)
          then show ?thesis
            by (cases res) (simp_all add: parseSafeTensors_def A Let_def hs_def [symmetric] new P B E pop)
        qed
      qed
    qed
  qed
qed

lemma parse_view:
  assumes "parseSafeTensors parse data ign s = (Inr r, s')"
  shows "\<exists>h kvs. parse (js_slice data 8 (8 + unsafeGetHeaderSize data)) = Some h
           \<and> object_entries h = Inr kvs
           \<and> tensor_view s' r = decoded_view data (unsafeGetHeaderSize data) kvs
           \<and> metadata (map_at s' r) = final_metadata kvs []"
proof -
  define hs where "hs = unsafeGetHeaderSize data"
  define s1 where "s1 = snd (new_TensorMap s)"
  have new: "new_TensorMap s = (next_map s, s1)" by (simp add: new_TensorMap_def s1_def)
  have empty: "refs (map_at s1 (next_map s)) = []" "metadata (map_at s1 (next_map s)) = []"
    by (simp_all add: s1_def new_TensorMap_def)
  from assms obtain val where A: "sanityCheckTensorsHeader ign data (int (length data)) = Inr val"
    by (cases "sanityCheckTensorsHeader ign data (int (length data))")
       (simp_all add: parseSafeTensors_def)
  from assms obtain j where P: "parse (js_slice data 8 (8 + hs)) = Some j"
    by (cases "parse (js_slice data 8 (8 + hs))")
       (simp_all add: parseSafeTensors_def A Let_def hs_def [symmetric] new)
  from assms obtain u where B: "sanityCheckTensorsParsed ign j (int (length data) - 8 - hs) = Inr u"
    by (cases "sanityCheckTensorsParsed ign j (int (length data) - 8 - hs)")
       (simp_all add: parseSafeTensors_def A Let_def hs_def [symmetric] new P)
  from assms obtain kvs where E: "object_entries j = Inr kvs"
    by (cases "object_entries j")
       (simp_all add: parseSafeTensors_def A Let_def hs_def [symmetric] new P B)
  obtain res s2 where pop: "populate data hs (next_map s) kvs s1 = (res, s2)"
    by (cases "populate data hs (next_map s) kvs s1")
  from assms have fin: "res = Inr () \<and> r = next_map s \<and> s' = s2"
    by (cases res) (simp_all add: parseSafeTensors_def A Let_def hs_def [symmetric] new P B E pop)
  then have run: "populate data hs r kvs s1 = (Inr (), s')" using pop by simp
  have "\<forall>a \<in> snd ` set (refs (map_at s1 r)). a < next_tensor s1" using fin by (simp add: empty)
  from populate_view [OF run this]
  have "tensor_view s' r = decoded_view data hs kvs" "metadata (map_at s' r) = final_metadata kvs []"
    using fin by (simp_all add: empty tensor_view_def)
  then show ?thesis using P E unfolding hs_def by blast
qed

subsection \<open>Stage B and overlapping ranges\<close>

text \<open>
  Claim C3: with leniency disabled, Stage B rejects every header in which two data_offsets
  ranges share a byte. The check compares only the two end points of the new range with
  each earlier range, so a new range that strictly contains an earlier one passes: the
  header below gives \<open>a\<close> the bytes 4 to 7 and then \<open>b\<close> the bytes 0 to 11, and Stage B
  accepts it.
\<close>

theorem stageB_accepts_containing_range:
  "sanityCheckTensorsParsed False contained_header 12 = Inr ()"
  by (simp add: contained_header_def stageB_defs)

subsection \<open>Offset assignment\<close>

text \<open>
  Claim C8: the offset-assignment phase gives each tensor the pair
  \<open>[runningOffset, runningOffset + byteLength]\<close> and advances the running offset by the
  length rounded up to a multiple of 8, so that every end offset is at most the next
  start offset. The rounding \<open>(len + 7) & ~7\<close> is a signed 32-bit operation: for a tensor
  of \<open>2 ^ 31\<close> bytes it yields \<open>- 2 ^ 31\<close>, the next tensor is placed at a negative offset
  below the end of its predecessor.
\<close>

theorem calcOffset_wraps_at_2GiB:
  "map (\<lambda>(k, v). (k, js_prop v ''data_offsets''))
       (hdr (calcOffset large_tensor_store (new_TensorSaver large_tensor_store 0)))
     = [(''a'', Some (JArr [JNum 0, JNum 2147483648])),
        (''b'', Some (JArr [JNum (- 2147483648), JNum (- 2147483647)]))]"
  by (simp add: large_tensor_store_def calcOffset_def new_TensorSaver_def setMetadata_def
      store_defs example_store_defs header_entry_def js_assign_def js_define_def align8_def
      js_and_def ToInt32_def is_array_index_def is_digit_def js_prop_def)

subsection \<open>Stage A and the header length\<close>

text \<open>
  Claim C4: Stage A reads the header length as an unsigned integer, returns it, and without
  leniency raises the size-ceiling error whenever it exceeds 100 MiB. The sum of the four
  bytes goes through \<open>| 0\<close>, a signed 32-bit conversion, so a length field of \<open>2 ^ 31\<close> is
  read as \<open>- 2 ^ 31\<close>: no ceiling error is raised and the negative number is returned.
\<close>

theorem stageA_returns_negative_length:
  "sanityCheckTensorsHeader False [0, 0, 0, 128, 0, 0, 0, 0, 123] 9 = Inr (- 2147483648)"
  by (simp add: sanityCheckTensorsHeader_def js_slice_def arrayCompare_def
      unsafeGetHeaderSize_def byte_at_def ToInt32_def)

subsection \<open>Element size\<close>

text \<open>
  Claim C5: \<open>formatLength\<close> fails exactly when the tag has no digits or its first integer
  is not a power of two. The test \<open>parsed & (parsed - 1)\<close> is zero at 0 as well, so a
  width of 0 bits, which is not a power of two, is accepted with element size 0.
\<close>

theorem formatLength_accepts_zero_width:
  "formatLength ''U0'' = Inr 0"
  by (simp add: formatLength_def match_digits_def is_digit_def parseInt10_def ToInt32_def
      js_and_def digits_value_def digit_value_def round_double_def number_ToInt32_def)

subsection \<open>Ownership\<close>

text \<open>
  Claim C7: after any operation that places a tensor into a container, every tensor in
  the container's mapping points back to that container. \<open>getOrMakeTensor\<close> stores the
  tensor made by the factory without setting its back-reference, unlike \<open>_setTensor\<close>:
  the new entry has no parent, and removing it by name is refused.
\<close>

theorem getOrMakeTensor_leaves_parent_unset:
  "(let (t, s) = getOrMakeTensor 0 ''x'' (new_TensorRef ''x'' [1] ''U8'' [JNum 1]) one_map_store
    in getTensor 0 ''x'' s = Some t \<and> parent (tensor_at s t) = None
       \<and> fst (removeTensor 0 ''x'' s)
           = Inl (Error ''You can only remove a tensor from the TensorMap that it belongs to.''))"
  by (simp add: store_defs example_store_defs)

text \<open>
  Claim C9, as stated, for every container \<open>c\<close> and name \<open>n\<close>: adding an unparented tensor
  \<open>t\<close> with another name under \<open>n\<close> stores it under \<open>n\<close>. When \<open>c\<close> already has an entry
  under \<open>n\<close> the addition is refused and the entry under \<open>n\<close> is not \<open>t\<close>.
\<close>

theorem addTensor_taken_name_counterexample:
  "parent (tensor_at taken_name_store 1) = None
   \<and> name (tensor_at taken_name_store 1) \<noteq> ''n''
   \<and> fst (addTensor_ref 0 ''n'' 1 taken_name_store)
        = Inl (Error ''The name already exists in the TensorMap.'')
   \<and> getTensor 0 ''n'' (snd (addTensor_ref 0 ''n'' 1 taken_name_store)) \<noteq> Some 1"
  by (simp add: store_defs example_store_defs)

text \<open>
  Claim C9, amended: for every container \<open>c\<close> with no entry under \<open>n\<close> and every unparented
  tensor \<open>t\<close> whose name differs from \<open>n\<close>, \<open>c.addTensor(n, t)\<close> stores \<open>t\<close> under \<open>n\<close>, sets its
  parent and leaves its name; \<open>c.removeTensor(n)\<close> then clears the parent and deletes the
  key \<open>t.name\<close>, not \<open>n\<close>, so \<open>c.getTensor(n)\<close> still returns \<open>t\<close>.
\<close>

theorem addTensor_other_name_then_remove:
  assumes "parent (tensor_at s t) = None"
    and "name (tensor_at s t) \<noteq> n"
    and "getTensor c n s = None"
  shows "let (r1, s1) = addTensor_ref c n t s; (r2, s2) = removeTensor c n s1
         in r1 = Inr t \<and> getTensor c n s1 = Some t
            \<and> name (tensor_at s1 t) = name (tensor_at s t)
            \<and> parent (tensor_at s1 t) = Some c
            \<and> r2 = Inr () \<and> parent (tensor_at s2 t) = None
            \<and> refs (map_at s2 c) = AList.delete (name (tensor_at s t)) (refs (map_at s1 c))
            \<and> getTensor c n s2 = Some t"
  using assms by (simp add: store_defs update_conv' delete_conv')

theorem addTensor_other_name_then_remove_witness:
  "parent (tensor_at loose_tensor_store 0) = None
   \<and> name (tensor_at loose_tensor_store 0) \<noteq> ''n''
   \<and> getTensor 0 ''n'' loose_tensor_store = None
   \<and> (let (r1, s1) = addTensor_ref 0 ''n'' 0 loose_tensor_store;
           (r2, s2) = removeTensor 0 ''n'' s1
       in r1 = Inr 0 \<and> getTensor 0 ''n'' s1 = Some 0
          \<and> name (tensor_at s1 0) = name (tensor_at loose_tensor_store 0)
          \<and> parent (tensor_at s1 0) = Some 0
          \<and> r2 = Inr () \<and> parent (tensor_at s2 0) = None
          \<and> refs (map_at s2 0)
              = AList.delete (name (tensor_at loose_tensor_store 0)) (refs (map_at s1 0))
          \<and> getTensor 0 ''n'' s2 = Some 0)"
proof -
  have h1: "parent (tensor_at loose_tensor_store 0) = None"
    by (simp add: store_defs example_store_defs)
  have h2: "name (tensor_at loose_tensor_store 0) \<noteq> ''n''"
    by (simp add: store_defs example_store_defs)
  have h3: "getTensor 0 ''n'' loose_tensor_store = None"
    by (simp add: store_defs example_store_defs)
  from addTensor_other_name_then_remove [OF h1 h2 h3] h1 h2 h3 show ?thesis
    by blast
qed

text \<open>
  Claim C10, as stated, for every tensor \<open>t\<close> owned by a container \<open>c\<close>: assigning \<open>t.name\<close>
  its current value throws the name-collision error. The tensor named \<open>m\<close> that
  \<open>c.addTensor("n", t)\<close> has listed under \<open>n\<close> is owned by \<open>c\<close>, and \<open>c\<close> has no entry
  under \<open>m\<close>: the assignment does not throw, and it adds the entry \<open>m\<close> to the mapping.
\<close>

theorem rename_unlisted_name_counterexample:
  "owned other_key_store 0 0
   \<and> name (tensor_at other_key_store 0) = ''m''
   \<and> refs (map_at other_key_store 0) = [(''n'', 0)]
   \<and> fst (set_name 0 (name (tensor_at other_key_store 0)) other_key_store) = Inr ()
   \<and> refs (map_at (snd (set_name 0 (name (tensor_at other_key_store 0)) other_key_store)) 0)
       = [(''n'', 0), (''m'', 0)]"
  by (simp add: other_key_store_def store_defs example_store_defs)

text \<open>
  Claim C10, amended: for a tensor \<open>t\<close> owned by a container \<open>c\<close> that has an entry under
  the current name of \<open>t\<close>, assigning \<open>t.name\<close> its current value throws the
  name-collision error, and the mapping of \<open>c\<close> and \<open>t\<close> are left unchanged.
\<close>

theorem rename_to_listed_name_rejected:
  "owned s c t \<Longrightarrow> getTensor c (name (tensor_at s t)) s \<noteq> None \<Longrightarrow>
   set_name t (name (tensor_at s t)) s
     = (Inl (Error ''The name already exists in the parent TensorMap.''), s)"
  by (simp add: store_defs)

theorem rename_to_listed_name_rejected_witness:
  "owned owned_tensor_store 0 0
   \<and> getTensor 0 (name (tensor_at owned_tensor_store 0)) owned_tensor_store \<noteq> None
   \<and> set_name 0 (name (tensor_at owned_tensor_store 0)) owned_tensor_store
       = (Inl (Error ''The name already exists in the parent TensorMap.''), owned_tensor_store)"
proof -
  have h1: "owned owned_tensor_store 0 0"
    by (simp add: store_defs example_store_defs)
  have h2: "getTensor 0 (name (tensor_at owned_tensor_store 0)) owned_tensor_store \<noteq> None"
    by (simp add: store_defs example_store_defs)
  from rename_to_listed_name_rejected [OF h1 h2] h1 h2 show ?thesis
    by blast
qed

end
